theory Spec2Isabelle
  imports Complex_Main
begin

section \<open>JavaScript numbers and thrown errors\<close>

text \<open>
  A JavaScript number is either finite or one of the three special values. A finite
  number is a rational (every double is one), so that fractional scores and thresholds
  have their value; sums and differences of finite numbers are taken exactly, without
  the rounding of doubles and without their overflow. The special values are kept
  because the code tests for them with \<open>Number.isFinite\<close> and because
  \<open>undefined + 1\<close> is \<open>NaN\<close>.
\<close>

datatype jsnum = Fin rat | NaN | PosInf | NegInf

datatype TaskStatus = PENDING | IN_PROGRESS | COMPLETED | FAILED | CANCELLED

text \<open>
  The text of a thrown error. The messages of the source are template strings; each
  template is a constructor that carries the interpolated values.
  \<open>TaskMissing i\<close> is the message of \<open>startTask\<close> for an id that is not in the map,
  \<open>StartNotAllowed s\<close> the one for a task whose status is \<open>s\<close> and not pending,
  \<open>CannotReadProperty p\<close> the engine's message for reading property \<open>p\<close> of
  \<open>null\<close> or \<open>undefined\<close>, \<open>CannotConvertObject\<close> the engine's message when
  an object has no primitive value, \<open>TaskStateAbnormal i s\<close> the message of the
  workflows for a task \<open>i\<close> found in status \<open>s\<close> after \<open>startTask\<close> has returned,
  and \<open>Text s\<close> any other message.
\<close>

datatype err_text =
    TaskMissing nat
  | StartNotAllowed TaskStatus
  | CannotReadProperty string
  | CannotConvertObject
  | TaskStateAbnormal nat TaskStatus
  | Text string

text \<open>An error object: the \<open>name\<close> of its class and its message.\<close>

record js_error =
  err_name :: string
  err_message :: err_text

definition new_Error :: "err_text \<Rightarrow> js_error" where
  "new_Error m = \<lparr>err_name = ''Error'', err_message = m\<rparr>"

definition new_TypeError :: "err_text \<Rightarrow> js_error" where
  "new_TypeError m = \<lparr>err_name = ''TypeError'', err_message = m\<rparr>"

section \<open>The task queue (task-queue.js)\<close>

text \<open>The string value of each member of the \<open>TaskStatus\<close> enumeration.\<close>

fun status_value :: "TaskStatus \<Rightarrow> string" where
  "status_value PENDING = ''pending''"
| "status_value IN_PROGRESS = ''in_progress''"
| "status_value COMPLETED = ''completed''"
| "status_value FAILED = ''failed''"
| "status_value CANCELLED = ''cancelled''"

record step_entry =
  step :: string
  message :: string
  timestamp :: int

text \<open>
  A task object. The id \<open>task_n\<close> is modelled by the number \<open>n\<close>; dates are
  milliseconds; \<open>null\<close> is \<open>None\<close>.
\<close>

record ('o, 'r) task =
  task_id :: nat
  task_type :: string
  status :: TaskStatus
  progress :: int
  startTime :: "int option"
  endTime :: "int option"
  duration :: "int option"
  options :: 'o
  result :: "'r option"
  error :: "js_error option"
  steps :: "step_entry list"

text \<open>
  The queue object: the \<open>Map\<close> of tasks as an association list in insertion order,
  the id counter, and the log of emitted events (event name and task id), oldest first.
\<close>

record ('o, 'r) task_queue =
  tasks :: "(nat \<times> ('o, 'r) task) list"
  nextTaskId :: nat
  emitted :: "(string \<times> nat) list"

definition new_TaskQueue :: "('o, 'r) task_queue" where
  "new_TaskQueue = \<lparr>tasks = [], nextTaskId = 1, emitted = []\<rparr>"

subsection \<open>Operations of \<open>Map\<close>\<close>

fun map_set :: "nat \<Rightarrow> 'v \<Rightarrow> (nat \<times> 'v) list \<Rightarrow> (nat \<times> 'v) list" where
  "map_set k v [] = [(k, v)]"
| "map_set k v ((k', v') # kvs) =
     (if k' = k then (k, v) # kvs else (k', v') # map_set k v kvs)"

definition map_get :: "(nat \<times> 'v) list \<Rightarrow> nat \<Rightarrow> 'v option" where
  "map_get kvs k = map_of kvs k"

definition map_delete :: "nat \<Rightarrow> (nat \<times> 'v) list \<Rightarrow> (nat \<times> 'v) list" where
  "map_delete k kvs = filter (\<lambda>kv. fst kv \<noteq> k) kvs"

text \<open>
  Assigning to a field of a task object that is stored in the map: the object is shared,
  so the change is seen through the map. An object that is in the map no longer is
  changed without effect on the map.
\<close>

definition mutate ::
  "nat \<Rightarrow> (('o, 'r) task \<Rightarrow> ('o, 'r) task) \<Rightarrow> ('o, 'r) task_queue \<Rightarrow> ('o, 'r) task_queue" where
  "mutate taskId f q =
     q\<lparr>tasks := map (\<lambda>kv. if fst kv = taskId then (fst kv, f (snd kv)) else kv) (tasks q)\<rparr>"

definition emit :: "string \<Rightarrow> nat \<Rightarrow> ('o, 'r) task_queue \<Rightarrow> ('o, 'r) task_queue" where
  "emit event taskId q = q\<lparr>emitted := emitted q @ [(event, taskId)]\<rparr>"

subsection \<open>createTask\<close>

definition createTask ::
  "string \<Rightarrow> 'o \<Rightarrow> ('o, 'r) task_queue \<Rightarrow> nat \<times> ('o, 'r) task_queue" where
  "createTask type opts q =
     (let taskId = nextTaskId q;
          task = \<lparr>task_id = taskId, task_type = type, status = PENDING, progress = 0,
                  startTime = None, endTime = None, duration = None, options = opts,
                  result = None, error = None, steps = []\<rparr>
      in (taskId,
          emit ''taskCreated'' taskId
            (q\<lparr>tasks := map_set taskId task (tasks q), nextTaskId := nextTaskId q + 1\<rparr>)))"

subsection \<open>updateProgress and cancelTask\<close>

text \<open>\<open>Array.prototype.findIndex\<close>: the first index that satisfies the test, or -1.\<close>

fun findIndex :: "('a \<Rightarrow> bool) \<Rightarrow> 'a list \<Rightarrow> int" where
  "findIndex P [] = -1"
| "findIndex P (x # xs) =
     (if P x then 0 else (let i = findIndex P xs in if i < 0 then -1 else i + 1))"

definition upsert_step :: "int \<Rightarrow> string \<Rightarrow> string \<Rightarrow> step_entry list \<Rightarrow> step_entry list" where
  "upsert_step now stp msg ss =
     (let existingStepIndex = findIndex (\<lambda>s. step s = stp) ss
      in if existingStepIndex \<ge> 0
         then ss[nat existingStepIndex :=
                   (ss ! nat existingStepIndex)\<lparr>message := msg, timestamp := now\<rparr>]
         else ss @ [\<lparr>step = stp, message = msg, timestamp = now\<rparr>])"

text \<open>\<open>now\<close> is the value of \<open>new Date()\<close>; a step name is falsy when it is empty.\<close>

definition updateProgress ::
  "int \<Rightarrow> nat \<Rightarrow> int \<Rightarrow> string \<Rightarrow> string \<Rightarrow> ('o, 'r) task_queue \<Rightarrow> ('o, 'r) task_queue" where
  "updateProgress now taskId percent stp msg q =
     (case map_get (tasks q) taskId of
        None \<Rightarrow> q
      | Some task \<Rightarrow>
          if status task = IN_PROGRESS
          then emit ''taskProgress'' taskId
                 (mutate taskId
                    (\<lambda>t. t\<lparr>progress := max 0 (min 100 percent),
                           steps := (if stp \<noteq> [] then upsert_step now stp msg (steps t)
                                     else steps t)\<rparr>) q)
          else q)"

definition cancelTask :: "nat \<Rightarrow> ('o, 'r) task_queue \<Rightarrow> ('o, 'r) task_queue" where
  "cancelTask taskId q =
     (case map_get (tasks q) taskId of
        None \<Rightarrow> q
      | Some task \<Rightarrow>
          if status task = IN_PROGRESS
          then emit ''taskCancelled'' taskId (mutate taskId (\<lambda>t. t\<lparr>status := CANCELLED\<rparr>) q)
          else q)"

subsection \<open>startTask\<close>

text \<open>
  \<open>startTask\<close> is an async function: it runs up to \<open>await executor(...)\<close>, is
  suspended there while the executor runs (and while any other caller of the queue
  runs), and is resumed with the executor's outcome. The three parts are modelled
  apart. \<open>startTask_begin\<close> is the part before the \<open>await\<close>: it returns the thrown
  error, if any, and the queue.
\<close>

definition startTask_begin ::
  "int \<Rightarrow> nat \<Rightarrow> ('o, 'r) task_queue \<Rightarrow> js_error option \<times> ('o, 'r) task_queue" where
  "startTask_begin now taskId q =
     (case map_get (tasks q) taskId of
        None \<Rightarrow> (Some (new_Error (TaskMissing taskId)), q)
      | Some task \<Rightarrow>
          if status task \<noteq> PENDING
          then (Some (new_Error (StartNotAllowed (status task))), q)
          else (None,
                emit ''taskStarted'' taskId
                  (mutate taskId (\<lambda>t. t\<lparr>status := IN_PROGRESS, startTime := Some now\<rparr>) q)))"

text \<open>
  A date minus a date, as in \<open>task.endTime - task.startTime\<close>; \<open>startTime\<close> has
  been set by \<open>startTask_begin\<close> when the continuations below run.
\<close>

definition elapsed :: "int \<Rightarrow> int option \<Rightarrow> int option" where
  "elapsed e s = (case s of Some t \<Rightarrow> Some (e - t) | None \<Rightarrow> Some e)"

text \<open>The continuation after the \<open>await\<close> when the executor's promise resolves.\<close>

definition startTask_resolved ::
  "int \<Rightarrow> nat \<Rightarrow> 'r \<Rightarrow> ('o, 'r) task_queue \<Rightarrow> ('o, 'r) task_queue" where
  "startTask_resolved now taskId res q =
     emit ''taskCompleted'' taskId
       (mutate taskId
          (\<lambda>t. t\<lparr>status := COMPLETED, endTime := Some now,
                 duration := elapsed now (startTime t), result := Some res,
                 progress := 100\<rparr>) q)"

text \<open>
  The \<open>catch\<close> branch, when the executor's promise rejects; the error is thrown again
  to the caller of \<open>startTask\<close>.
\<close>

definition startTask_rejected ::
  "int \<Rightarrow> nat \<Rightarrow> js_error \<Rightarrow> ('o, 'r) task_queue \<Rightarrow> js_error \<times> ('o, 'r) task_queue" where
  "startTask_rejected now taskId err q =
     (err,
      emit ''taskFailed'' taskId
        (mutate taskId
           (\<lambda>t. t\<lparr>status := FAILED, endTime := Some now,
                  duration := elapsed now (startTime t), error := Some err\<rparr>) q))"

subsection \<open>Queries, cleanupTasks and getStats\<close>

definition getTask :: "('o, 'r) task_queue \<Rightarrow> nat \<Rightarrow> ('o, 'r) task option" where
  "getTask q taskId = map_get (tasks q) taskId"

definition getTasks :: "('o, 'r) task_queue \<Rightarrow> ('o, 'r) task list" where
  "getTasks q = map snd (tasks q)"

definition getTaskStatus :: "('o, 'r) task_queue \<Rightarrow> nat \<Rightarrow> TaskStatus option" where
  "getTaskStatus q taskId = map_option status (map_get (tasks q) taskId)"

text \<open>
  \<open>now - (task.endTime || task.startTime || now)\<close>: a date object is truthy,
  \<open>null\<close> is falsy.
\<close>

definition taskAge :: "int \<Rightarrow> ('o, 'r) task \<Rightarrow> int" where
  "taskAge now task =
     now - (case endTime task of
              Some e \<Rightarrow> e
            | None \<Rightarrow> (case startTime task of Some s \<Rightarrow> s | None \<Rightarrow> now))"

text \<open>The loop of \<open>cleanupTasks\<close> over the entries of the map.\<close>

fun cleanup_loop ::
  "int \<Rightarrow> int \<Rightarrow> (nat \<times> ('o, 'r) task) list \<Rightarrow> (nat \<times> ('o, 'r) task) list
     \<Rightarrow> (nat \<times> ('o, 'r) task) list" where
  "cleanup_loop now maxAge [] m = m"
| "cleanup_loop now maxAge ((taskId, task) # entries) m =
     (if status task = COMPLETED \<or> status task = FAILED
      then (if taskAge now task > maxAge
            then cleanup_loop now maxAge entries (map_delete taskId m)
            else cleanup_loop now maxAge entries m)
      else cleanup_loop now maxAge entries m)"

definition cleanupTasks :: "int \<Rightarrow> int \<Rightarrow> ('o, 'r) task_queue \<Rightarrow> ('o, 'r) task_queue" where
  "cleanupTasks now maxAge q = q\<lparr>tasks := cleanup_loop now maxAge (tasks q) (tasks q)\<rparr>"

text \<open>
  The statistics object: its properties as an association list from property name to
  value. \<open>stats[key]++\<close> reads the property (\<open>undefined\<close> when absent, which
  converts to \<open>NaN\<close>), adds one and writes it back, creating the property when absent.
\<close>

fun js_plus_one :: "jsnum \<Rightarrow> jsnum" where
  "js_plus_one (Fin n) = Fin (n + 1)"
| "js_plus_one NaN = NaN"
| "js_plus_one PosInf = PosInf"
| "js_plus_one NegInf = NegInf"

fun prop_get :: "(string \<times> 'v) list \<Rightarrow> string \<Rightarrow> 'v option" where
  "prop_get [] k = None"
| "prop_get ((k', v) # kvs) k = (if k' = k then Some v else prop_get kvs k)"

fun prop_set :: "string \<Rightarrow> 'v \<Rightarrow> (string \<times> 'v) list \<Rightarrow> (string \<times> 'v) list" where
  "prop_set k v [] = [(k, v)]"
| "prop_set k v ((k', v') # kvs) =
     (if k' = k then (k, v) # kvs else (k', v') # prop_set k v kvs)"

definition increment :: "string \<Rightarrow> (string \<times> jsnum) list \<Rightarrow> (string \<times> jsnum) list" where
  "increment k stats =
     prop_set k (js_plus_one (case prop_get stats k of None \<Rightarrow> NaN | Some v \<Rightarrow> v)) stats"

definition getStats :: "('o, 'r) task_queue \<Rightarrow> (string \<times> jsnum) list" where
  "getStats q =
     fold (\<lambda>task stats. increment (status_value (status task)) stats)
       (map snd (tasks q))
       [(''total'', Fin (of_nat (length (tasks q)))),
        (''pending'', Fin 0),
        (''inProgress'', Fin 0),
        (''completed'', Fin 0),
        (''failed'', Fin 0),
        (''cancelled'', Fin 0)]"

section \<open>Values parsed from JSON and their conversion to numbers\<close>

text \<open>
  The analysis that the AI returns is parsed by \<open>JSON.parse\<close>: its values are
  \<open>null\<close>, booleans, numbers, strings, arrays and plain objects (the own properties
  in order). No value of this kind is callable, and none is \<open>undefined\<close>; a property
  that is absent reads as \<open>undefined\<close>, modelled by \<open>None\<close>.
\<close>

datatype json =
    JNull
  | JBool bool
  | JNum jsnum
  | JStr string
  | JArr "json list"
  | JObj "(string \<times> json) list"

text \<open>
  The two conversions between strings and numbers are the engine's and are left
  unspecified: every statement below holds for any pair of such functions.
\<close>

record js_engine =
  StringToNumber :: "string \<Rightarrow> jsnum"
  NumberToString :: "jsnum \<Rightarrow> string"

definition has_own :: "(string \<times> json) list \<Rightarrow> string \<Rightarrow> bool" where
  "has_own kvs p = (p \<in> set (map fst kvs))"

text \<open>
  \<open>ToString\<close>. An object is converted by \<open>toString\<close> and then \<open>valueOf\<close>: an own
  property of that name is not callable and is passed over, the inherited
  \<open>valueOf\<close> returns the object itself, which is not a primitive, and the inherited
  \<open>toString\<close> gives \<open>[object Object]\<close>; so an object with an own property
  \<open>toString\<close> has no primitive value and the conversion throws a TypeError. An array
  is converted by \<open>join\<close>, where \<open>null\<close> elements give the empty string.
\<close>

fun ToString :: "js_engine \<Rightarrow> json \<Rightarrow> js_error + string"
  and join_from :: "js_engine \<Rightarrow> json list \<Rightarrow> js_error + string" where
  "ToString E JNull = Inr ''null''"
| "ToString E (JBool b) = Inr (if b then ''true'' else ''false'')"
| "ToString E (JNum n) = Inr (NumberToString E n)"
| "ToString E (JStr s) = Inr s"
| "ToString E (JObj kvs) =
     (if has_own kvs ''toString'' then Inl (new_TypeError CannotConvertObject)
      else Inr ''[object Object]'')"
| "ToString E (JArr xs) = join_from E xs"
| "join_from E [] = Inr []"
| "join_from E (x # xs) =
     (case (if x = JNull then Inr [] else ToString E x) of
        Inl e \<Rightarrow> Inl e
      | Inr s \<Rightarrow>
          (if xs = [] then Inr s
           else (case join_from E xs of Inl e \<Rightarrow> Inl e | Inr r \<Rightarrow> Inr (s @ '','' @ r))))"

text \<open>
  \<open>Number(v)\<close>. An object or array is first converted to a primitive, by
  \<open>valueOf\<close> and then \<open>toString\<close>, with the same outcome as above; the resulting
  string is then converted.
\<close>

fun Number_of :: "js_engine \<Rightarrow> json \<Rightarrow> js_error + jsnum" where
  "Number_of E JNull = Inr (Fin 0)"
| "Number_of E (JBool b) = Inr (Fin (if b then 1 else 0))"
| "Number_of E (JNum n) = Inr n"
| "Number_of E (JStr s) = Inr (StringToNumber E s)"
| "Number_of E v =
     (case ToString E v of Inl e \<Rightarrow> Inl e | Inr s \<Rightarrow> Inr (StringToNumber E s))"

text \<open>
  Reading property \<open>p\<close> of a value, for the names this program reads
  (\<open>noveltyScore\<close>, \<open>impactScore\<close>), which no prototype defines: on \<open>null\<close> the
  read throws a TypeError, on an object it gives the own property or \<open>undefined\<close>,
  on any other value \<open>undefined\<close>.
\<close>

fun get_property :: "json \<Rightarrow> string \<Rightarrow> js_error + json option" where
  "get_property JNull p = Inl (new_TypeError (CannotReadProperty p))"
| "get_property (JObj kvs) p = Inr (map_of kvs p)"
| "get_property v p = Inr None"

text \<open>\<open>v ?? 0\<close>: the value, or 0 when it is \<open>undefined\<close> or \<open>null\<close>.\<close>

fun nullish_zero :: "json option \<Rightarrow> json" where
  "nullish_zero None = JNum (Fin 0)"
| "nullish_zero (Some JNull) = JNum (Fin 0)"
| "nullish_zero (Some v) = v"

text \<open>\<open>Number.isFinite(x) ? x : 0\<close>.\<close>

fun finite_or_zero :: "jsnum \<Rightarrow> rat" where
  "finite_or_zero (Fin n) = n"
| "finite_or_zero x = 0"

section \<open>Topic selection (StrategyExecutor.generateBlog)\<close>

text \<open>\<open>Number(topic[p] ?? 0)\<close>, then \<open>Number.isFinite(x) ? x : 0\<close>.\<close>

definition score_field :: "js_engine \<Rightarrow> json \<Rightarrow> string \<Rightarrow> js_error + rat" where
  "score_field E topic p =
     (case get_property topic p of
        Inl e \<Rightarrow> Inl e
      | Inr v \<Rightarrow>
          (case Number_of E (nullish_zero v) of
             Inl e \<Rightarrow> Inl e
           | Inr x \<Rightarrow> Inr (finite_or_zero x)))"

text \<open>The decimal form of an array index, as a property name.\<close>

fun decimal :: "nat \<Rightarrow> string" where
  "decimal n =
     (if n < 10 then [''0123456789'' ! n]
      else decimal (n div 10) @ [''0123456789'' ! (n mod 10)])"

declare decimal.simps [simp del]

definition indexed :: "json list \<Rightarrow> (string \<times> json) list" where
  "indexed xs = zip (map decimal [0..<length xs]) xs"

text \<open>
  The own enumerable properties that \<open>{...v}\<close> copies: those of an object, the
  elements of an array and the characters of a string under their indices, and none
  for \<open>null\<close>, a boolean or a number.
\<close>

fun own_properties :: "json \<Rightarrow> (string \<times> json) list" where
  "own_properties (JObj kvs) = kvs"
| "own_properties (JArr xs) = indexed xs"
| "own_properties (JStr s) = indexed (map (\<lambda>c. JStr [c]) s)"
| "own_properties v = []"

text \<open>
  A scored topic \<open>{...topic, _score}\<close> is a new object: the copied properties of
  the element of \<open>topics\<close>, with the property \<open>_score\<close> written over a copied one of
  that name or added. It is kept as a pair: the object of its properties other than
  \<open>_score\<close>, which is what \<open>({ _score, ...rest }) => rest\<close> returns at the end, and
  the value of \<open>_score\<close>.
\<close>

definition rest_of :: "json \<Rightarrow> json" where
  "rest_of topic = JObj (filter (\<lambda>kv. fst kv \<noteq> ''_score'') (own_properties topic))"

type_synonym scored = "json \<times> rat"

definition score_topic :: "js_engine \<Rightarrow> json \<Rightarrow> js_error + scored" where
  "score_topic E topic =
     (case score_field E topic ''noveltyScore'' of
        Inl e \<Rightarrow> Inl e
      | Inr novelty \<Rightarrow>
          (case score_field E topic ''impactScore'' of
             Inl e \<Rightarrow> Inl e
           | Inr impact \<Rightarrow> Inr (rest_of topic, novelty + impact)))"

text \<open>\<open>topics.map(...)\<close>: the first exception ends the whole call.\<close>

fun scoredTopics :: "js_engine \<Rightarrow> json list \<Rightarrow> js_error + scored list" where
  "scoredTopics E [] = Inr []"
| "scoredTopics E (topic # rest) =
     (case score_topic E topic of
        Inl e \<Rightarrow> Inl e
      | Inr st \<Rightarrow>
          (case scoredTopics E rest of Inl e \<Rightarrow> Inl e | Inr sts \<Rightarrow> Inr (st # sts)))"

text \<open>\<open>x >= m\<close> for a finite \<open>x\<close>: false when \<open>m\<close> is \<open>NaN\<close>.\<close>

fun ge_num :: "rat \<Rightarrow> jsnum \<Rightarrow> bool" where
  "ge_num x (Fin m) = (x \<ge> m)"
| "ge_num x NaN = False"
| "ge_num x PosInf = False"
| "ge_num x NegInf = True"

definition passes :: "js_engine \<Rightarrow> jsnum \<Rightarrow> jsnum \<Rightarrow> scored \<Rightarrow> js_error + bool" where
  "passes E minNoveltyScore minImpactScore st =
     (case score_field E (fst st) ''noveltyScore'' of
        Inl e \<Rightarrow> Inl e
      | Inr novelty \<Rightarrow>
          (case score_field E (fst st) ''impactScore'' of
             Inl e \<Rightarrow> Inl e
           | Inr impact \<Rightarrow>
               Inr (ge_num novelty minNoveltyScore \<and> ge_num impact minImpactScore)))"

fun filteredTopics ::
  "js_engine \<Rightarrow> jsnum \<Rightarrow> jsnum \<Rightarrow> scored list \<Rightarrow> js_error + scored list" where
  "filteredTopics E mn mi [] = Inr []"
| "filteredTopics E mn mi (st # rest) =
     (case passes E mn mi st of
        Inl e \<Rightarrow> Inl e
      | Inr keep \<Rightarrow>
          (case filteredTopics E mn mi rest of
             Inl e \<Rightarrow> Inl e
           | Inr sts \<Rightarrow> Inr (if keep then st # sts else sts)))"

text \<open>
  \<open>Array.prototype.sort\<close> with a comparison function is a stable sort, and for a
  consistent comparison its result is determined: it is computed here by insertion
  from the right, an element going before the first one it does not compare greater
  than. The comparison of the source is \<open>b._score - a._score\<close>, on finite scores.
\<close>

definition compare_score :: "scored \<Rightarrow> scored \<Rightarrow> rat" where
  "compare_score a b = snd b - snd a"

fun insert_by :: "('a \<Rightarrow> 'a \<Rightarrow> rat) \<Rightarrow> 'a \<Rightarrow> 'a list \<Rightarrow> 'a list" where
  "insert_by cmp x [] = [x]"
| "insert_by cmp x (y # ys) =
     (if cmp x y \<le> 0 then x # y # ys else y # insert_by cmp x ys)"

definition sort_by :: "('a \<Rightarrow> 'a \<Rightarrow> rat) \<Rightarrow> 'a list \<Rightarrow> 'a list" where
  "sort_by cmp xs = foldr (insert_by cmp) xs []"

text \<open>\<open>Math.max(1, m)\<close>.\<close>

fun max_one :: "jsnum \<Rightarrow> jsnum" where
  "max_one (Fin m) = Fin (max 1 m)"
| "max_one NaN = NaN"
| "max_one PosInf = PosInf"
| "max_one NegInf = Fin 1"

text \<open>The integer part of a finite number, rounding towards zero.\<close>

definition integer_part :: "rat \<Rightarrow> int" where
  "integer_part x = (if x < 0 then \<lceil>x\<rceil> else \<lfloor>x\<rfloor>)"

text \<open>
  \<open>xs.slice(0, end)\<close>: the end is truncated to an integer, \<open>NaN\<close> counts as 0, a
  negative end counts from the end of the array, and the end is clamped to the length.
\<close>

fun slice_to :: "jsnum \<Rightarrow> 'a list \<Rightarrow> 'a list" where
  "slice_to (Fin e) xs =
     (if integer_part e < 0 then take (nat (max (int (length xs) + integer_part e) 0)) xs
      else take (nat (min (integer_part e) (int (length xs)))) xs)"
| "slice_to NaN xs = []"
| "slice_to PosInf xs = xs"
| "slice_to NegInf xs = []"

definition topicsToRank :: "scored list \<Rightarrow> scored list \<Rightarrow> scored list" where
  "topicsToRank filtered scoredAll = (if length filtered > 0 then filtered else scoredAll)"

text \<open>
  The ranked topics, with their scores: \<open>topicsToRank.sort(...).slice(...)\<close>. The
  thresholds are the numbers that \<open>generateBlog\<close> has obtained by \<open>Number(...)\<close> from
  the configuration.
\<close>

definition rankedTopics ::
  "js_engine \<Rightarrow> jsnum \<Rightarrow> jsnum \<Rightarrow> jsnum \<Rightarrow> json list \<Rightarrow> js_error + scored list" where
  "rankedTopics E minNoveltyScore minImpactScore maxTopics topics =
     (case scoredTopics E topics of
        Inl e \<Rightarrow> Inl e
      | Inr scoredAll \<Rightarrow>
          (case filteredTopics E minNoveltyScore minImpactScore scoredAll of
             Inl e \<Rightarrow> Inl e
           | Inr filtered \<Rightarrow>
               Inr (slice_to (max_one maxTopics)
                      (sort_by compare_score (topicsToRank filtered scoredAll)))))"

text \<open>\<open>selectedTopics\<close>: the ranked topics without the \<open>_score\<close> property.\<close>

definition selectedTopics ::
  "js_engine \<Rightarrow> jsnum \<Rightarrow> jsnum \<Rightarrow> jsnum \<Rightarrow> json list \<Rightarrow> js_error + json list" where
  "selectedTopics E minNoveltyScore minImpactScore maxTopics topics =
     (case rankedTopics E minNoveltyScore minImpactScore maxTopics topics of
        Inl e \<Rightarrow> Inl e
      | Inr ranked \<Rightarrow> Inr (map fst ranked))"

text \<open>\<open>Array.isArray(analysis.topics) ? analysis.topics : []\<close>.\<close>

fun topics_of :: "json option \<Rightarrow> json list" where
  "topics_of (Some (JArr xs)) = xs"
| "topics_of v = []"

section \<open>Configuration (getStrategyConfig, getAnalysisConfig, thresholds of generateBlog)\<close>

text \<open>
  The configuration object, as far as the workflows read it: the feeds, and the
  optional sections \<open>strategy\<close> and \<open>analysis\<close> as parsed JSON objects.
\<close>

record config =
  rssFeeds :: "string list"
  strategy :: "(string \<times> json) list option"
  analysis :: "(string \<times> json) list option"

text \<open>\<open>{...a, ...b}\<close>: the properties of \<open>b\<close> written over those of \<open>a\<close>.\<close>

definition spread_over ::
  "(string \<times> json) list \<Rightarrow> (string \<times> json) list \<Rightarrow> (string \<times> json) list" where
  "spread_over a b = fold (\<lambda>kv acc. prop_set (fst kv) (snd kv) acc) b a"

definition getStrategyConfig :: "config \<Rightarrow> (string \<times> json) list" where
  "getStrategyConfig c =
     spread_over
       [(''articlesPerBlog'', JNum (Fin 5)), (''maxTokenLimit'', JNum (Fin 80000)),
        (''topicCount'', JNum (Fin 3)), (''wordCount'', JNum (Fin 5000))]
       (case strategy c of None \<Rightarrow> [] | Some kvs \<Rightarrow> kvs)"

definition getAnalysisConfig :: "config \<Rightarrow> (string \<times> json) list" where
  "getAnalysisConfig c =
     spread_over
       [(''minNoveltyScore'', JNum (Fin 6)), (''minImpactScore'', JNum (Fin 6)),
        (''minValueScore'', JNum (Fin 8)), (''maxTopics'', JNum (Fin 5))]
       (case analysis c of None \<Rightarrow> [] | Some kvs \<Rightarrow> kvs)"

text \<open>\<open>a ?? b\<close>, and \<open>Number\<close> of a value that may be \<open>undefined\<close>.\<close>

fun nullish :: "json option \<Rightarrow> json option \<Rightarrow> json option" where
  "nullish None b = b"
| "nullish (Some JNull) b = b"
| "nullish (Some v) b = Some v"

fun Number_opt :: "js_engine \<Rightarrow> json option \<Rightarrow> js_error + jsnum" where
  "Number_opt E None = Inr NaN"
| "Number_opt E (Some v) = Number_of E v"

record thresholds =
  minNoveltyScore :: jsnum
  minImpactScore :: jsnum
  minValueScore :: jsnum
  maxTopics :: jsnum

definition read_thresholds ::
  "js_engine \<Rightarrow> (string \<times> json) list \<Rightarrow> (string \<times> json) list \<Rightarrow> js_error + thresholds" where
  "read_thresholds E analysisConfig strategyConfig =
     (case Number_of E (nullish_zero (prop_get analysisConfig ''minNoveltyScore'')) of
        Inl e \<Rightarrow> Inl e
      | Inr mn \<Rightarrow>
     (case Number_of E (nullish_zero (prop_get analysisConfig ''minImpactScore'')) of
        Inl e \<Rightarrow> Inl e
      | Inr mi \<Rightarrow>
     (case Number_of E (nullish_zero (prop_get analysisConfig ''minValueScore'')) of
        Inl e \<Rightarrow> Inl e
      | Inr mv \<Rightarrow>
     (case Number_opt E (nullish (prop_get analysisConfig ''maxTopics'')
                                 (prop_get strategyConfig ''topicCount'')) of
        Inl e \<Rightarrow> Inl e
      | Inr mt \<Rightarrow>
          Inr \<lparr>minNoveltyScore = mn, minImpactScore = mi, minValueScore = mv,
               maxTopics = mt\<rparr>))))"

section \<open>The generation loop (StrategyExecutor.executeStrategy)\<close>

record article =
  guid :: string
  article_title :: string

record blog =
  title :: string
  description :: string
  content :: string
  imagePrompt :: string

text \<open>An entry of \<open>generatedBlogs\<close>.\<close>

record generated_blog =
  gb_title :: string
  gb_description :: string
  gb_path :: string
  gb_imagePath :: "string option"
  gb_wordCount :: nat
  gb_processedArticles :: nat
  gb_analysis :: json

text \<open>
  What the collaborators answer during one iteration of the loop, each either a value
  or a thrown error: the selection of articles (by id or the unprocessed ones),
  \<open>analyzeArticles\<close>, the part of \<open>generateBlog\<close> after the topic selection (the
  filter of high-value articles, the prompt, the AI call and the parsing of its
  answer), \<open>generateImage\<close>, formatting and saving, and marking the articles as
  processed.
\<close>

record iteration_env =
  select_reply :: "js_error + article list"
  analyze_reply :: "js_error + json"
  article_reply :: "js_error + blog"
  image_reply :: "js_error + string option"
  save_reply :: "js_error + string"
  mark_reply :: "js_error option"

text \<open>\<open>analysis.topics\<close> of the truthy value that \<open>analyzeArticles\<close> returned.\<close>

fun analysis_topics :: "json \<Rightarrow> json option" where
  "analysis_topics (JObj kvs) = prop_get kvs ''topics''"
| "analysis_topics v = None"

definition generateBlog ::
  "js_engine \<Rightarrow> (string \<times> json) list \<Rightarrow> (string \<times> json) list \<Rightarrow> json
     \<Rightarrow> js_error + blog \<Rightarrow> js_error + blog" where
  "generateBlog E strategyConfig analysisConfig analysisResult reply =
     (case read_thresholds E analysisConfig strategyConfig of
        Inl e \<Rightarrow> Inl e
      | Inr th \<Rightarrow>
          (case selectedTopics E (minNoveltyScore th) (minImpactScore th) (maxTopics th)
                  (topics_of (analysis_topics analysisResult)) of
             Inl e \<Rightarrow> Inl e
           | Inr selected \<Rightarrow> reply))"

text \<open>\<open>generateBlogImage\<close>: no prompt or a failed generation give \<open>null\<close>.\<close>

definition generateBlogImage :: "string \<Rightarrow> js_error + string option \<Rightarrow> string option" where
  "generateBlogImage prompt reply =
     (if prompt = [] then None else (case reply of Inl e \<Rightarrow> None | Inr path \<Rightarrow> path))"

text \<open>
  The body of the loop: \<open>NoArticles\<close> is the \<open>break\<close>, \<open>IterationFailed\<close> the
  \<open>catch\<close> branch, \<open>Generated\<close> the entry pushed to \<open>generatedBlogs\<close>.
\<close>

datatype iteration_outcome =
    NoArticles
  | IterationFailed js_error
  | Generated generated_blog

definition run_iteration :: "js_engine \<Rightarrow> config \<Rightarrow> iteration_env \<Rightarrow> iteration_outcome" where
  "run_iteration E c ienv =
     (case select_reply ienv of
        Inl e \<Rightarrow> IterationFailed e
      | Inr unprocessedArticles \<Rightarrow>
          if length unprocessedArticles = 0 then NoArticles
          else
     (case analyze_reply ienv of
        Inl e \<Rightarrow> IterationFailed e
      | Inr analysisResult \<Rightarrow>
     (case generateBlog E (getStrategyConfig c) (getAnalysisConfig c) analysisResult
             (article_reply ienv) of
        Inl e \<Rightarrow> IterationFailed e
      | Inr b \<Rightarrow>
     (let imagePath = generateBlogImage (imagePrompt b) (image_reply ienv) in
      case save_reply ienv of
        Inl e \<Rightarrow> IterationFailed e
      | Inr savedPath \<Rightarrow>
     (case mark_reply ienv of
        Some e \<Rightarrow> IterationFailed e
      | None \<Rightarrow>
          Generated \<lparr>gb_title = title b, gb_description = description b, gb_path = savedPath,
                      gb_imagePath = imagePath, gb_wordCount = length (content b),
                      gb_processedArticles = length unprocessedArticles,
                      gb_analysis = analysisResult\<rparr>)))))"

fun strategy_loop :: "iteration_outcome list \<Rightarrow> generated_blog list \<Rightarrow> generated_blog list" where
  "strategy_loop [] generatedBlogs = generatedBlogs"
| "strategy_loop (NoArticles # rest) generatedBlogs = generatedBlogs"
| "strategy_loop (IterationFailed e # rest) generatedBlogs = strategy_loop rest generatedBlogs"
| "strategy_loop (Generated entry # rest) generatedBlogs =
     strategy_loop rest (generatedBlogs @ [entry])"

text \<open>
  \<open>executeStrategy(config, count, options)\<close>. Before the loop, and outside its
  \<open>try\<close>, an AI client is constructed when \<open>options.aiModel\<close> names a model other
  than the default; the constructor throws for a provider it does not support, and
  \<open>client_reply\<close> is that error, if any. \<open>iters i\<close> is what the collaborators
  answer in iteration \<open>i\<close>, counted from 0.
\<close>

definition executeStrategy ::
  "js_engine \<Rightarrow> config \<Rightarrow> nat \<Rightarrow> js_error option \<Rightarrow> (nat \<Rightarrow> iteration_env)
     \<Rightarrow> js_error + generated_blog list" where
  "executeStrategy E c count client_reply iters =
     (case client_reply of
        Some e \<Rightarrow> Inl e
      | None \<Rightarrow> Inr (strategy_loop (map (\<lambda>i. run_iteration E c (iters i)) [0..<count]) []))"

section \<open>Workflow results and reports (WorkflowManager.js)\<close>

text \<open>
  A report object, for both kinds of report that the workflows build: the one of
  \<open>generateReport\<close>, which has \<open>blogs\<close> and \<open>analysisResults\<close>, and the one of the
  fetch workflow, which has neither and records \<open>articlesFetched\<close>. Durations are
  kept in milliseconds; the statistics of the article repository are an opaque value.
\<close>

record report =
  rep_success :: bool
  rep_startTime :: int
  rep_duration :: int
  rep_generatedBlogs :: int
  rep_blogs :: "generated_blog list option"
  rep_analysisResults :: "(string \<times> json) list option"
  rep_articleStats :: json
  rep_rssFeedCount :: nat
  rep_articlesFetched :: "nat option"

text \<open>
  The messages of the workflow results, in the order of their use below: no article
  was fetched; the full workflow failed; the analysis of existing articles failed;
  the selective fetch succeeded; the selective fetch failed.
\<close>

datatype wf_message =
    NoArticlesFetched
  | FullWorkflowFailed
  | AnalyzeExistingFailed
  | FetchWorkflowSucceeded
  | FetchWorkflowFailed

datatype wf_data = NoData | ErrorData js_error | ReportData report

text \<open>
  What an executor returns and a task stores as its result: an object made by
  \<open>createWorkflowResult(success, message, data)\<close>, or a report itself.
\<close>

datatype wf_value =
    WorkflowResult bool wf_message wf_data
  | ReportValue report

definition createWorkflowResult :: "bool \<Rightarrow> wf_message \<Rightarrow> wf_data \<Rightarrow> wf_value" where
  "createWorkflowResult success msg d = WorkflowResult success msg d"

text \<open>Truthiness of a parsed value, as in \<open>generatedBlogs.filter(blog => blog.analysis)\<close>.\<close>

fun truthy :: "json \<Rightarrow> bool" where
  "truthy JNull = False"
| "truthy (JBool b) = b"
| "truthy (JNum (Fin n)) = (n \<noteq> 0)"
| "truthy (JNum NaN) = False"
| "truthy (JNum x) = True"
| "truthy (JStr s) = (s \<noteq> [])"
| "truthy v = True"

text \<open>
  \<open>generateReport\<close>: the statistics are awaited first; reading
  \<open>config.strategy.articlesPerBlog\<close> throws when the configuration has no
  \<open>strategy\<close> section.
\<close>

definition generateReport ::
  "generated_blog list \<Rightarrow> config \<Rightarrow> int \<Rightarrow> int \<Rightarrow> js_error + json \<Rightarrow> js_error + report" where
  "generateReport generatedBlogs c startT now stats_reply =
     (case stats_reply of
        Inl e \<Rightarrow> Inl e
      | Inr stats \<Rightarrow>
          (case strategy c of
             None \<Rightarrow> Inl (new_TypeError (CannotReadProperty ''articlesPerBlog''))
           | Some s \<Rightarrow>
               Inr \<lparr>rep_success = True, rep_startTime = startT, rep_duration = now - startT,
                    rep_generatedBlogs = int (length generatedBlogs),
                    rep_blogs = Some generatedBlogs,
                    rep_analysisResults =
                      Some (map (\<lambda>b. (gb_title b, gb_analysis b))
                             (filter (\<lambda>b. truthy (gb_analysis b)) generatedBlogs)),
                    rep_articleStats = stats,
                    rep_rssFeedCount = length (rssFeeds c),
                    rep_articlesFetched = None\<rparr>))"

section \<open>The executors of the workflows\<close>

text \<open>
  What the collaborators answer during one run of a workflow: \<open>loadConfig\<close>,
  \<open>fetchRSSFeeds\<close>, the loop over \<open>saveArticle\<close> (the first error, if any), the
  construction of the AI client (the error, if any), the iterations of the generation
  loop, \<open>getArticleStats\<close> and \<open>saveReport\<close>.
\<close>

record workflow_env =
  loadConfig_reply :: "js_error + config"
  fetch_reply :: "js_error + article list"
  saveArticle_reply :: "js_error option"
  aiClient_reply :: "js_error option"
  iterations :: "nat \<Rightarrow> iteration_env"
  stats_reply :: "js_error + json"
  saveReport_reply :: "js_error option"

text \<open>
  A run of an executor: the calls of the progress function it has made, in order, and
  how its promise is settled. Each step calls \<open>progress\<close> and then
  \<open>progressCallback\<close> when the caller has passed one; the only callback passed in
  this repository calls \<open>updateProgress\<close> for the same task with the same arguments,
  so \<open>cb\<close> says whether each call is made twice. Step names and messages are given in
  English.
\<close>

type_synonym progress_call = "int \<times> string \<times> string"

definition announce :: "bool \<Rightarrow> progress_call \<Rightarrow> progress_call list" where
  "announce cb call = (if cb then [call, call] else [call])"

definition fullWorkflow_executor ::
  "js_engine \<Rightarrow> int \<Rightarrow> int \<Rightarrow> nat \<Rightarrow> bool \<Rightarrow> workflow_env
     \<Rightarrow> progress_call list \<times> (js_error + wf_value)" where
  "fullWorkflow_executor E startT now blogCount cb env =
     (let p1 = announce cb (10, ''load config'', ''loading the system configuration'') in
      case loadConfig_reply env of
        Inl e \<Rightarrow> (p1, Inl e)
      | Inr c \<Rightarrow>
     (let p2 = p1 @ announce cb (25, ''fetch RSS'', ''fetching RSS content'') in
      case fetch_reply env of
        Inl e \<Rightarrow> (p2, Inl e)
      | Inr articles \<Rightarrow>
          if length articles = 0
          then (p2, Inr (createWorkflowResult False NoArticlesFetched NoData))
          else
     (let p3 = p2 @ announce cb (50, ''store articles'', ''storing article content'') in
      case saveArticle_reply env of
        Some e \<Rightarrow> (p3, Inl e)
      | None \<Rightarrow>
     (let p4 = p3 @ announce cb (70, ''analyze articles'', ''analyzing and generating blogs'') in
      case executeStrategy E c blogCount (aiClient_reply env) (iterations env) of
        Inl e \<Rightarrow> (p4, Inl e)
      | Inr generatedBlogs \<Rightarrow>
     (let p5 = p4 @ announce cb (90, ''generate report'', ''generating the run report'') in
      case generateReport generatedBlogs c startT now (stats_reply env) of
        Inl e \<Rightarrow> (p5, Inl e)
      | Inr rep \<Rightarrow>
     (let p6 = p5 @ announce cb (95, ''save report'', ''saving the run report'') in
      case saveReport_reply env of
        Some e \<Rightarrow> (p6, Inl e)
      | None \<Rightarrow>
          (p6 @ announce cb (100, ''done'', ''workflow finished''), Inr (ReportValue rep))))))))"

definition analyzeExisting_executor ::
  "js_engine \<Rightarrow> int \<Rightarrow> int \<Rightarrow> nat \<Rightarrow> bool \<Rightarrow> workflow_env
     \<Rightarrow> progress_call list \<times> (js_error + wf_value)" where
  "analyzeExisting_executor E startT now blogCount cb env =
     (let p1 = announce cb (10, ''load config'', ''loading the system configuration'') in
      case loadConfig_reply env of
        Inl e \<Rightarrow> (p1, Inl e)
      | Inr c \<Rightarrow>
     (let p2 = p1 @ announce cb (50, ''analyze articles'', ''analyzing articles and generating blogs'') in
      case executeStrategy E c blogCount (aiClient_reply env) (iterations env) of
        Inl e \<Rightarrow> (p2, Inl e)
      | Inr generatedBlogs \<Rightarrow>
     (let p3 = p2 @ announce cb (90, ''generate report'', ''generating the run report'') in
      case generateReport generatedBlogs c startT now (stats_reply env) of
        Inl e \<Rightarrow> (p3, Inl e)
      | Inr rep \<Rightarrow>
     (case saveReport_reply env of
        Some e \<Rightarrow> (p3, Inl e)
      | None \<Rightarrow>
          (p3 @ announce cb (100, ''done'', ''analysis finished''), Inr (ReportValue rep))))))"

text \<open>
  The feeds to fetch: those named in \<open>selectedFeeds\<close> when it is a non-empty array,
  all feeds otherwise.
\<close>

definition feedsToFetch :: "string list option \<Rightarrow> config \<Rightarrow> string list" where
  "feedsToFetch selectedFeeds c =
     (case selectedFeeds of
        None \<Rightarrow> rssFeeds c
      | Some names \<Rightarrow>
          if length names > 0 then filter (\<lambda>feed. feed \<in> set names) (rssFeeds c)
          else rssFeeds c)"

definition fetchWorkflow_executor ::
  "int \<Rightarrow> int \<Rightarrow> string list option \<Rightarrow> bool \<Rightarrow> workflow_env
     \<Rightarrow> progress_call list \<times> (js_error + wf_value)" where
  "fetchWorkflow_executor startT now selectedFeeds cb env =
     (let p1 = announce cb (15, ''load config'', ''loading the system configuration'') in
      case loadConfig_reply env of
        Inl e \<Rightarrow> (p1, Inl e)
      | Inr c \<Rightarrow>
     (let feeds = feedsToFetch selectedFeeds c;
          p2 = p1 @ announce cb (45, ''fetch RSS'', ''fetching RSS content'')
      in
      case fetch_reply env of
        Inl e \<Rightarrow> (p2, Inl e)
      | Inr articles \<Rightarrow>
          if length articles = 0
          then (p2 @ announce cb (100, ''done'', ''no article was fetched''),
                Inr (createWorkflowResult False NoArticlesFetched NoData))
          else
     (let p4 = p2 @ announce cb (75, ''store articles'', ''storing article content'') in
      case saveArticle_reply env of
        Some e \<Rightarrow> (p4, Inl e)
      | None \<Rightarrow>
     (let p5 = p4 @ announce cb (90, ''generate report'', ''generating the run report'') in
      case stats_reply env of
        Inl e \<Rightarrow> (p5, Inl e)
      | Inr stats \<Rightarrow>
     (let rep = \<lparr>rep_success = True, rep_startTime = startT, rep_duration = now - startT,
                 rep_generatedBlogs = 0, rep_blogs = None, rep_analysisResults = None,
                 rep_articleStats = stats, rep_rssFeedCount = length feeds,
                 rep_articlesFetched = Some (length articles)\<rparr>
      in
      case saveReport_reply env of
        Some e \<Rightarrow> (p5, Inl e)
      | None \<Rightarrow>
          (p5 @ announce cb (100, ''done'', ''selective fetch finished''),
           Inr (createWorkflowResult True FetchWorkflowSucceeded (ReportData rep))))))))"

section \<open>Running a workflow as a task\<close>

text \<open>
  \<open>startTask\<close> with an executor whose run is given, and with no other caller of the
  queue in between: the part before the \<open>await\<close>, the executor's calls of the progress
  function, and the continuation for its outcome. The result is the error thrown to
  the caller, if any, and the queue.
\<close>

definition startTask ::
  "int \<Rightarrow> int \<Rightarrow> nat \<Rightarrow> progress_call list \<times> (js_error + 'r) \<Rightarrow> ('o, 'r) task_queue
     \<Rightarrow> js_error option \<times> ('o, 'r) task_queue" where
  "startTask t0 t1 taskId run q =
     (case startTask_begin t0 taskId q of
        (Some e, q') \<Rightarrow> (Some e, q')
      | (None, q') \<Rightarrow>
          (let q'' = fold (\<lambda>call. updateProgress t0 taskId (fst call) (fst (snd call))
                                      (snd (snd call))) (fst run) q'
           in case snd run of
                Inr res \<Rightarrow> (None, startTask_resolved t1 taskId res q'')
              | Inl err \<Rightarrow>
                  (Some (fst (startTask_rejected t1 taskId err q'')),
                   snd (startTask_rejected t1 taskId err q''))))"

text \<open>
  The frame that the three task workflows share: create the task unless an id is
  passed, start it, and after \<open>startTask\<close> has returned read the task and return its
  result, any exception being turned into a failure result with message \<open>failed\<close>.
  \<open>null\<close> as the returned value is \<open>None\<close>.
\<close>

definition run_workflow ::
  "string \<Rightarrow> 'o \<Rightarrow> wf_message \<Rightarrow> int \<Rightarrow> int \<Rightarrow> nat option
     \<Rightarrow> progress_call list \<times> (js_error + wf_value) \<Rightarrow> ('o, wf_value) task_queue
     \<Rightarrow> wf_value option \<times> ('o, wf_value) task_queue" where
  "run_workflow type opts failed t0 t1 taskId_arg run q =
     (let created = (case taskId_arg of
                       None \<Rightarrow> createTask type opts q
                     | Some i \<Rightarrow> (i, q));
          taskId = fst created
      in
      case startTask t0 t1 taskId run (snd created) of
        (Some e, q') \<Rightarrow> (Some (createWorkflowResult False failed (ErrorData e)), q')
      | (None, q') \<Rightarrow>
          (case getTask q' taskId of
             None \<Rightarrow>
               (Some (createWorkflowResult False failed
                        (ErrorData (new_TypeError (CannotReadProperty ''status'')))), q')
           | Some task \<Rightarrow>
               if status task = COMPLETED then (result task, q')
               else if status task = FAILED
               then (Some (createWorkflowResult False failed
                             (case error task of
                                Some e \<Rightarrow> ErrorData e
                              | None \<Rightarrow> NoData)), q')
               else (Some (createWorkflowResult False failed
                             (ErrorData (new_Error (TaskStateAbnormal taskId (status task))))),
                     q')))"

definition executeFullWorkflow ::
  "js_engine \<Rightarrow> int \<Rightarrow> int \<Rightarrow> nat \<Rightarrow> 'o \<Rightarrow> bool \<Rightarrow> nat option \<Rightarrow> workflow_env
     \<Rightarrow> ('o, wf_value) task_queue \<Rightarrow> wf_value option \<times> ('o, wf_value) task_queue" where
  "executeFullWorkflow E t0 t1 blogCount opts cb taskId_arg env q =
     run_workflow ''fullWorkflow'' opts FullWorkflowFailed t0 t1 taskId_arg
       (fullWorkflow_executor E t0 t1 blogCount cb env) q"

definition analyzeExistingArticles ::
  "js_engine \<Rightarrow> int \<Rightarrow> int \<Rightarrow> nat \<Rightarrow> 'o \<Rightarrow> bool \<Rightarrow> nat option \<Rightarrow> workflow_env
     \<Rightarrow> ('o, wf_value) task_queue \<Rightarrow> wf_value option \<times> ('o, wf_value) task_queue" where
  "analyzeExistingArticles E t0 t1 blogCount opts cb taskId_arg env q =
     run_workflow ''analyzeWorkflow'' opts AnalyzeExistingFailed t0 t1 taskId_arg
       (analyzeExisting_executor E t0 t1 blogCount cb env) q"

definition executeFetchWorkflow ::
  "int \<Rightarrow> int \<Rightarrow> string list option \<Rightarrow> 'o \<Rightarrow> bool \<Rightarrow> nat option \<Rightarrow> workflow_env
     \<Rightarrow> ('o, wf_value) task_queue \<Rightarrow> wf_value option \<times> ('o, wf_value) task_queue" where
  "executeFetchWorkflow t0 t1 selectedFeeds opts cb taskId_arg env q =
     run_workflow ''fetchWorkflow'' opts FetchWorkflowFailed t0 t1 taskId_arg
       (fetchWorkflow_executor t0 t1 selectedFeeds cb env) q"

text \<open>The report that a returned value carries, if any, and its count of generated blogs.\<close>

fun report_of :: "wf_value option \<Rightarrow> report option" where
  "report_of (Some (ReportValue rep)) = Some rep"
| "report_of (Some (WorkflowResult ok msg (ReportData rep))) = Some rep"
| "report_of v = None"

section \<open>Callers of the queue taking turns\<close>

text \<open>
  While a \<open>startTask\<close> call is suspended at its \<open>await\<close>, other callers run: the
  executor calls the progress function, a request handler calls \<open>cancelTask\<close>, new
  tasks are created and started. An event is one such turn, with \<open>new Date()\<close> at
  that turn; the outcome of an executor is an event for the suspended call. The state
  is the queue and the ids of the suspended \<open>startTask\<close> calls.
\<close>

datatype ('o, 'r) event =
    CreateTask string 'o
  | StartTask nat
  | ExecutorResolves nat 'r
  | ExecutorRejects nat js_error
  | CancelTask nat
  | UpdateProgress nat int string string

record ('o, 'r) system =
  queue :: "('o, 'r) task_queue"
  suspended :: "nat list"

definition initial_system :: "('o, 'r) system" where
  "initial_system = \<lparr>queue = new_TaskQueue, suspended = []\<rparr>"

text \<open>
  An executor settles only for a \<open>startTask\<close> call that is suspended, and settles it
  once: an outcome for an id that is not suspended is not a possible event and changes
  nothing.
\<close>

fun step_system :: "int \<times> ('o, 'r) event \<Rightarrow> ('o, 'r) system \<Rightarrow> ('o, 'r) system" where
  "step_system (now, CreateTask type opts) s = s\<lparr>queue := snd (createTask type opts (queue s))\<rparr>"
| "step_system (now, StartTask taskId) s =
     (case startTask_begin now taskId (queue s) of
        (Some e, q') \<Rightarrow> s\<lparr>queue := q'\<rparr>
      | (None, q') \<Rightarrow> s\<lparr>queue := q', suspended := taskId # suspended s\<rparr>)"
| "step_system (now, ExecutorResolves taskId res) s =
     (if taskId \<in> set (suspended s)
      then s\<lparr>queue := startTask_resolved now taskId res (queue s),
              suspended := remove1 taskId (suspended s)\<rparr>
      else s)"
| "step_system (now, ExecutorRejects taskId err) s =
     (if taskId \<in> set (suspended s)
      then s\<lparr>queue := snd (startTask_rejected now taskId err (queue s)),
              suspended := remove1 taskId (suspended s)\<rparr>
      else s)"
| "step_system (now, CancelTask taskId) s = s\<lparr>queue := cancelTask taskId (queue s)\<rparr>"
| "step_system (now, UpdateProgress taskId percent stp msg) s =
     s\<lparr>queue := updateProgress now taskId percent stp msg (queue s)\<rparr>"

definition run_events :: "(int \<times> ('o, 'r) event) list \<Rightarrow> ('o, 'r) system \<Rightarrow> ('o, 'r) system" where
  "run_events events s = fold step_system events s"

text \<open>The edges of the state machine of a task, as the specification draws them.\<close>

fun allowed_edge :: "TaskStatus \<Rightarrow> TaskStatus \<Rightarrow> bool" where
  "allowed_edge PENDING IN_PROGRESS = True"
| "allowed_edge IN_PROGRESS COMPLETED = True"
| "allowed_edge IN_PROGRESS FAILED = True"
| "allowed_edge IN_PROGRESS CANCELLED = True"
| "allowed_edge a b = False"

section \<open>Invariant of the queue and its suspended calls\<close>

text \<open>
  Every key of the map is below the id counter, no task has two suspended
  \<open>startTask\<close> calls, and the task of every suspended call is in progress or
  cancelled.
\<close>

definition system_ok :: "('o, 'r) system \<Rightarrow> bool" where
  "system_ok s =
     (list_all (\<lambda>kv. fst kv < nextTaskId (queue s)) (tasks (queue s))
      \<and> distinct (suspended s)
      \<and> list_all (\<lambda>i. getTaskStatus (queue s) i = Some IN_PROGRESS
                      \<or> getTaskStatus (queue s) i = Some CANCELLED) (suspended s))"

section \<open>A queue for the examples\<close>

text \<open>Two tasks are created; the first is started at time 10 and its executor resolves at 20.\<close>

definition example_queue :: "(unit, unit) task_queue" where
  "example_queue =
     queue (run_events
       [(0, CreateTask ''fetchWorkflow'' ()), (0, CreateTask ''fetchWorkflow'' ()),
        (10, StartTask 1), (20, ExecutorResolves 1 ())] initial_system)"

section \<open>Topics that can be scored, and the examples of the specification\<close>

text \<open>
  The values whose conversion to a string, and so to a number, does not throw: every
  value but an object with an own property \<open>toString\<close> and an array that holds such
  an object, at any depth.
\<close>

fun stringifiable :: "json \<Rightarrow> bool"
  and all_stringifiable :: "json list \<Rightarrow> bool" where
  "stringifiable (JObj kvs) = (\<not> has_own kvs ''toString'')"
| "stringifiable (JArr xs) = all_stringifiable xs"
| "stringifiable JNull = True"
| "stringifiable (JBool b) = True"
| "stringifiable (JNum n) = True"
| "stringifiable (JStr s) = True"
| "all_stringifiable [] = True"
| "all_stringifiable (x # xs) = (stringifiable x \<and> all_stringifiable xs)"

fun own_property :: "json \<Rightarrow> string \<Rightarrow> json option" where
  "own_property (JObj kvs) p = map_of kvs p"
| "own_property v p = None"

text \<open>
  The elements of \<open>topics\<close> that can be scored: any value but \<open>null\<close>, with score
  fields (where it is an object that has them) that are stringifiable.
\<close>

definition scorable :: "json \<Rightarrow> bool" where
  "scorable t =
     (t \<noteq> JNull
      \<and> stringifiable (nullish_zero (own_property t ''noveltyScore''))
      \<and> stringifiable (nullish_zero (own_property t ''impactScore'')))"

text \<open>
  What a score field counts for, stated on its own: nothing when it is missing or
  \<open>null\<close>; for a number its value when finite and nothing otherwise; for a boolean 1
  or 0; for a string the finite number it converts to, and nothing when it converts
  to \<open>NaN\<close> or an infinity; for an array or object the same applied to its string.
\<close>

fun contribution :: "js_engine \<Rightarrow> json option \<Rightarrow> rat" where
  "contribution E None = 0"
| "contribution E (Some JNull) = 0"
| "contribution E (Some (JBool b)) = (if b then 1 else 0)"
| "contribution E (Some (JNum (Fin x))) = x"
| "contribution E (Some (JNum n)) = 0"
| "contribution E (Some (JStr s)) = finite_or_zero (StringToNumber E s)"
| "contribution E (Some v) =
     (case ToString E v of
        Inl e \<Rightarrow> 0
      | Inr s \<Rightarrow> finite_or_zero (StringToNumber E s))"

definition expected_score :: "js_engine \<Rightarrow> json \<Rightarrow> rat" where
  "expected_score E t =
     contribution E (own_property t ''noveltyScore'')
       + contribution E (own_property t ''impactScore'')"

text \<open>
  The three topics of the example in the specification, with novelty and impact
  (8, 7), (5, 9) and (7, 6), and a fourth with (7, 8), which ties with the first.
\<close>

definition topic_A :: json where
  "topic_A = JObj [(''title'', JStr ''A''), (''noveltyScore'', JNum (Fin 8)),
                   (''impactScore'', JNum (Fin 7))]"

definition topic_B :: json where
  "topic_B = JObj [(''title'', JStr ''B''), (''noveltyScore'', JNum (Fin 5)),
                   (''impactScore'', JNum (Fin 9))]"

definition topic_C :: json where
  "topic_C = JObj [(''title'', JStr ''C''), (''noveltyScore'', JNum (Fin 7)),
                   (''impactScore'', JNum (Fin 6))]"

definition topic_D :: json where
  "topic_D = JObj [(''title'', JStr ''D''), (''noveltyScore'', JNum (Fin 7)),
                   (''impactScore'', JNum (Fin 8))]"

section \<open>Notions used to state the properties of the workflows\<close>

text \<open>
  The id of the task that a workflow runs, and the condition under which
  \<open>startTask\<close> accepts it: a task created by the workflow itself is pending, a task
  whose id is passed in must be.
\<close>

definition workflow_task_id :: "nat option \<Rightarrow> ('o, 'r) task_queue \<Rightarrow> nat" where
  "workflow_task_id taskId_arg q =
     (case taskId_arg of None \<Rightarrow> nextTaskId q | Some i \<Rightarrow> i)"

definition can_start :: "nat option \<Rightarrow> ('o, 'r) task_queue \<Rightarrow> bool" where
  "can_start taskId_arg q =
     (case taskId_arg of None \<Rightarrow> True | Some i \<Rightarrow> getTaskStatus q i = Some PENDING)"

fun is_generated :: "iteration_outcome \<Rightarrow> bool" where
  "is_generated (Generated entry) = True"
| "is_generated out = False"

text \<open>
  An iteration of the loop, told from what the collaborators answer alone. It ends the
  loop when the selection returns no article. It succeeds when every one of its steps
  returns: the selection (with at least one article), the analysis, the generation,
  the saving and the marking. In any other case one of its steps throws.
\<close>

definition iteration_stops :: "iteration_env \<Rightarrow> bool" where
  "iteration_stops ienv = (select_reply ienv = Inr [])"

definition iteration_succeeds :: "js_engine \<Rightarrow> config \<Rightarrow> iteration_env \<Rightarrow> bool" where
  "iteration_succeeds E c ienv =
     (case select_reply ienv of
        Inl e \<Rightarrow> False
      | Inr arts \<Rightarrow>
          arts \<noteq> [] \<and>
          (case analyze_reply ienv of
             Inl e \<Rightarrow> False
           | Inr a \<Rightarrow>
               (case generateBlog E (getStrategyConfig c) (getAnalysisConfig c) a
                       (article_reply ienv) of
                  Inl e \<Rightarrow> False
                | Inr b \<Rightarrow>
                    (case save_reply ienv of
                       Inl e \<Rightarrow> False
                     | Inr path \<Rightarrow> mark_reply ienv = None))))"

text \<open>
  The iterations that succeed, among those that run: the loop runs the iterations in
  order up to the first that ends it.
\<close>

definition succeeded_iterations ::
  "js_engine \<Rightarrow> config \<Rightarrow> iteration_env list \<Rightarrow> nat" where
  "succeeded_iterations E c ienvs =
     length (filter (iteration_succeeds E c)
               (takeWhile (\<lambda>ienv. \<not> iteration_stops ienv) ienvs))"

text \<open>
  An example run: a configuration with a \<open>strategy\<close> section, three fetched items,
  and collaborators that all succeed, except that \<open>analyzeArticles\<close> throws in the
  second iteration.
\<close>

definition example_config :: config where
  "example_config =
     \<lparr>rssFeeds = [''feed''], strategy = Some [(''articlesPerBlog'', JNum (Fin 6))],
      analysis = Some [(''maxTopics'', JNum (Fin 5))]\<rparr>"

definition example_articles :: "article list" where
  "example_articles =
     [\<lparr>guid = ''g1'', article_title = ''one''\<rparr>, \<lparr>guid = ''g2'', article_title = ''two''\<rparr>,
      \<lparr>guid = ''g3'', article_title = ''three''\<rparr>]"

definition example_iteration :: "nat \<Rightarrow> iteration_env" where
  "example_iteration i =
     \<lparr>select_reply = Inr example_articles,
      analyze_reply =
        (if i = 1 then Inl (new_Error (Text ''cannot parse the analysis result''))
         else Inr (JObj [(''topics'', JArr [topic_A, topic_B, topic_C])])),
      article_reply =
        Inr \<lparr>title = ''weekly'', description = ''digest'', content = ''text'',
             imagePrompt = ''''\<rparr>,
      image_reply = Inr None,
      save_reply = Inr ''post.md'',
      mark_reply = None\<rparr>"

definition example_env :: workflow_env where
  "example_env =
     \<lparr>loadConfig_reply = Inr example_config, fetch_reply = Inr example_articles,
      saveArticle_reply = None, aiClient_reply = None, iterations = example_iteration,
      stats_reply = Inr (JObj []), saveReport_reply = None\<rparr>"

definition example_env_nothing_fetched :: workflow_env where
  "example_env_nothing_fetched = example_env\<lparr>fetch_reply := Inr []\<rparr>"

text \<open>
  The same run with a configuration file that has no \<open>strategy\<close> section, for
  which \<open>getStrategyConfig\<close> supplies its defaults.
\<close>

definition example_config_no_strategy :: config where
  "example_config_no_strategy = example_config\<lparr>strategy := None\<rparr>"

definition example_env_no_strategy :: workflow_env where
  "example_env_no_strategy =
     example_env\<lparr>loadConfig_reply := Inr example_config_no_strategy\<rparr>"

section \<open>Properties of the task queue\<close>

subsection \<open>Lookups after the operations of the queue\<close>

lemma tasks_emit [simp]: "tasks (emit ev i q) = tasks q"
  by (simp add: emit_def)

lemma map_get_mutate:
  "map_get (tasks (mutate i f q)) j =
     (if j = i then map_option f (map_get (tasks q) i) else map_get (tasks q) j)"
proof -
  have "map_of (map (\<lambda>kv. if fst kv = i then (fst kv, f (snd kv)) else kv) m) j =
        (if j = i then map_option f (map_of m i) else map_of m j)"
    for m :: "(nat \<times> ('a, 'b) task) list"
    by (induction m) auto
  then show ?thesis by (simp add: mutate_def map_get_def)
qed

lemma map_get_map_set:
  "map_get (map_set k v m) j = (if j = k then Some v else map_get m j)"
  by (induction m) (auto simp: map_get_def)

lemma keys_mutate [simp]: "map fst (tasks (mutate i f q)) = map fst (tasks q)"
  by (simp add: mutate_def comp_def if_distrib cong: if_cong)

lemma keys_map_set: "fst ` set (map_set k v m) = insert k (fst ` set m)"
proof (induction m)
  case Nil
  then show ?case by simp
next
  case (Cons kv m)
  obtain k' v' where kv: "kv = (k', v')" by (cases kv)
  show ?case unfolding kv using Cons.IH by (cases "k' = k") auto
qed

lemma distinct_map_set: "distinct (map fst m) \<Longrightarrow> distinct (map fst (map_set k v m))"
proof (induction m)
  case Nil
  then show ?case by simp
next
  case (Cons kv m)
  obtain k' v' where kv: "kv = (k', v')" by (cases kv)
  show ?case using Cons unfolding kv by (cases "k' = k") (auto simp: keys_map_set)
qed

text \<open>
  The map of tasks has one entry for each key: this holds for the new queue and is kept
  by every event.
\<close>

lemma distinct_step_system:
  "distinct (map fst (tasks (queue s))) \<Longrightarrow>
   distinct (map fst (tasks (queue (step_system ev s))))"
proof (cases ev)
  case (Pair now e)
  assume d: "distinct (map fst (tasks (queue s)))"
  show ?thesis
    unfolding Pair using d
    by (cases e)
      (auto simp: createTask_def startTask_begin_def startTask_resolved_def
        startTask_rejected_def cancelTask_def updateProgress_def Let_def distinct_map_set
        split: option.splits)
qed

lemma distinct_run_events:
  "distinct (map fst (tasks (queue s))) \<Longrightarrow>
   distinct (map fst (tasks (queue (run_events evs s))))"
  unfolding run_events_def
  by (induction evs arbitrary: s) (auto simp: distinct_step_system)

lemma distinct_reachable:
  "distinct (map fst (tasks (queue (run_events evs initial_system))))"
  by (rule distinct_run_events) (simp add: initial_system_def new_TaskQueue_def)

subsection \<open>cleanupTasks\<close>

lemma cleanup_loop_filter:
  "cleanup_loop now maxAge es m =
     filter (\<lambda>kv. \<not> (\<exists>e \<in> set es. fst e = fst kv \<and>
                (status (snd e) = COMPLETED \<or> status (snd e) = FAILED) \<and>
                taskAge now (snd e) > maxAge)) m"
proof (induction es arbitrary: m)
  case Nil
  then show ?case by simp
next
  case (Cons e es)
  obtain k t where e: "e = (k, t)" by (cases e)
  show ?case
    unfolding e
    by (auto simp: Cons.IH map_delete_def intro!: filter_cong)
qed

lemma map_of_filter_distinct:
  "distinct (map fst m) \<Longrightarrow>
   map_of (filter (\<lambda>kv. P (snd kv)) m) i =
     (case map_of m i of None \<Rightarrow> None | Some t \<Rightarrow> if P t then Some t else None)"
proof (induction m)
  case Nil
  then show ?case by simp
next
  case (Cons kv m)
  obtain k t where kv: "kv = (k, t)" by (cases kv)
  from Cons.prems have notin: "k \<notin> fst ` set m" and d: "distinct (map fst m)"
    by (auto simp: kv)
  have none: "map_of m k = None" using notin by (simp add: map_of_eq_None_iff)
  show ?case
    using Cons.IH [OF d] none by (auto simp: kv split: option.splits)
qed

lemma cleanup_characterisation:
  assumes "distinct (map fst (tasks q))"
  shows "getTask (cleanupTasks now maxAge q) i =
          (case getTask q i of
             None \<Rightarrow> None
           | Some t \<Rightarrow>
               if (status t = COMPLETED \<or> status t = FAILED) \<and> taskAge now t > maxAge
               then None else Some t)"
proof -
  let ?del = "\<lambda>t. (status t = COMPLETED \<or> status t = FAILED) \<and> taskAge now t > maxAge"
  have "cleanup_loop now maxAge (tasks q) (tasks q) = filter (\<lambda>kv. \<not> ?del (snd kv)) (tasks q)"
    unfolding cleanup_loop_filter
  proof (rule filter_cong [OF refl])
    fix kv assume in_m: "kv \<in> set (tasks q)"
    have "e = kv" if "e \<in> set (tasks q)" "fst e = fst kv" for e
      using assms that in_m by (metis eq_key_imp_eq_value prod.collapse)
    then show "(\<not> (\<exists>e \<in> set (tasks q). fst e = fst kv \<and>
                  (status (snd e) = COMPLETED \<or> status (snd e) = FAILED) \<and>
                  taskAge now (snd e) > maxAge)) = (\<not> ?del (snd kv))"
      using in_m by auto
  qed
  then show ?thesis
    using map_of_filter_distinct [OF assms, of "\<lambda>t. \<not> ?del t" i]
    by (auto simp: getTask_def cleanupTasks_def map_get_def split: option.splits)
qed

text \<open>
  C10. \<open>cleanupTasks\<close> removes a task only when its status is completed or failed and
  its age exceeds \<open>maxAge\<close>; a task that is pending, in progress or cancelled stays,
  whatever its age; and every task that is in the queue afterwards is the same record
  as before. The id counter and the event log are not touched. The map has one entry
  for each key, as every \<open>Map\<close> has.
\<close>

theorem cleanupTasks_frame:
  assumes "distinct (map fst (tasks q))"
  shows "(\<forall>t. getTask q i = Some t \<and> status t \<noteq> COMPLETED \<and> status t \<noteq> FAILED
              \<longrightarrow> getTask (cleanupTasks now maxAge q) i = Some t)
       \<and> (\<forall>t. getTask q i = Some t \<and> getTask (cleanupTasks now maxAge q) i = None
              \<longrightarrow> (status t = COMPLETED \<or> status t = FAILED) \<and> taskAge now t > maxAge)
       \<and> (\<forall>t. getTask (cleanupTasks now maxAge q) i = Some t \<longrightarrow> getTask q i = Some t)
       \<and> nextTaskId (cleanupTasks now maxAge q) = nextTaskId q
       \<and> emitted (cleanupTasks now maxAge q) = emitted q"
  using cleanup_characterisation [OF assms, of now maxAge i]
  by (auto simp: cleanupTasks_def split: option.splits if_splits)

theorem cleanupTasks_frame_witness:
  "distinct (map fst (tasks example_queue))
   \<and> getTaskStatus example_queue 2 = Some PENDING
   \<and> getTaskStatus (cleanupTasks 4000000 3600000 example_queue) 2 = Some PENDING
   \<and> getTaskStatus example_queue 1 = Some COMPLETED
   \<and> getTask (cleanupTasks 4000000 3600000 example_queue) 1 = None"
proof -
  have d: "distinct (map fst (tasks example_queue))"
    unfolding example_queue_def by (rule distinct_reachable)
  have q: "tasks example_queue =
     [(1, \<lparr>task_id = 1, task_type = ''fetchWorkflow'', status = COMPLETED, progress = 100,
           startTime = Some 10, endTime = Some 20, duration = Some 10, options = (),
           result = Some (), error = None, steps = []\<rparr>),
      (2, \<lparr>task_id = 2, task_type = ''fetchWorkflow'', status = PENDING, progress = 0,
           startTime = None, endTime = None, duration = None, options = (),
           result = None, error = None, steps = []\<rparr>)]"
    by (simp add: example_queue_def run_events_def initial_system_def new_TaskQueue_def
        createTask_def startTask_begin_def startTask_resolved_def emit_def mutate_def
        map_get_def elapsed_def Let_def)
  obtain t2 where t2: "getTask example_queue 2 = Some t2" and s2: "status t2 = PENDING"
    unfolding getTask_def q map_get_def by simp
  have s1: "getTaskStatus example_queue 1 = Some COMPLETED"
    unfolding getTaskStatus_def q map_get_def by simp
  have gone: "getTask (cleanupTasks 4000000 3600000 example_queue) 1 = None"
    unfolding getTask_def cleanupTasks_def q
    by (simp add: map_get_def map_delete_def taskAge_def)
  from cleanupTasks_frame [OF d, of 2 4000000 3600000] t2 s2
  have kept: "getTask (cleanupTasks 4000000 3600000 example_queue) 2 = Some t2"
    by (metis TaskStatus.distinct(3) TaskStatus.distinct(5))
  have a: "getTaskStatus example_queue 2 = Some PENDING"
    using t2 s2 unfolding getTaskStatus_def getTask_def by simp
  have b: "getTaskStatus (cleanupTasks 4000000 3600000 example_queue) 2 = Some PENDING"
    using kept s2 unfolding getTaskStatus_def getTask_def by simp
  from d a b s1 gone show ?thesis by blast
qed

subsection \<open>startTask on a task that cannot be started\<close>

text \<open>
  C8, as the code has it. \<open>startTask\<close> on a task whose status is not pending throws
  an \<open>Error\<close> whose message carries the task's status, and \<open>startTask\<close> with an id
  that is not in the queue throws an \<open>Error\<close> whose message carries the id; in both
  cases the executor is not run and the queue is unchanged. The class of both errors
  is \<open>Error\<close>: the program defines no error classes of its own.
\<close>

theorem startTask_refusals:
  "(\<forall>task. getTask q taskId = Some task \<and> status task \<noteq> PENDING
       \<longrightarrow> startTask t0 t1 taskId run q =
             (Some \<lparr>err_name = ''Error'', err_message = StartNotAllowed (status task)\<rparr>, q))
   \<and> (getTask q taskId = None
       \<longrightarrow> startTask t0 t1 taskId run q =
             (Some \<lparr>err_name = ''Error'', err_message = TaskMissing taskId\<rparr>, q))"
  by (auto simp: startTask_def startTask_begin_def getTask_def new_Error_def)

theorem startTask_refusals_witness:
  "getTask (new_TaskQueue :: (unit, unit) task_queue) 7 = None
   \<and> startTask 0 1 7 ([], Inr ()) (new_TaskQueue :: (unit, unit) task_queue) =
       (Some \<lparr>err_name = ''Error'', err_message = TaskMissing 7\<rparr>, new_TaskQueue)
   \<and> getTaskStatus (snd (startTask 0 1 1 ([], Inr ())
          (snd (createTask ''fetchWorkflow'' () (new_TaskQueue :: (unit, unit) task_queue))))) 1
       = Some COMPLETED
   \<and> startTask 2 3 1 ([], Inr ())
        (snd (startTask 0 1 1 ([], Inr ())
          (snd (createTask ''fetchWorkflow'' () (new_TaskQueue :: (unit, unit) task_queue))))) =
       (Some \<lparr>err_name = ''Error'', err_message = StartNotAllowed COMPLETED\<rparr>,
        snd (startTask 0 1 1 ([], Inr ())
          (snd (createTask ''fetchWorkflow'' () (new_TaskQueue :: (unit, unit) task_queue)))))"
proof -
  let ?q = "snd (startTask 0 1 1 ([], Inr ())
          (snd (createTask ''fetchWorkflow'' () (new_TaskQueue :: (unit, unit) task_queue))))"
  have none: "getTask (new_TaskQueue :: (unit, unit) task_queue) 7 = None"
    by (simp add: getTask_def new_TaskQueue_def map_get_def)
  have q: "getTask ?q 1 =
      Some \<lparr>task_id = 1, task_type = ''fetchWorkflow'', status = COMPLETED, progress = 100,
           startTime = Some 0, endTime = Some 1, duration = Some 1, options = (),
           result = Some (), error = None, steps = []\<rparr>"
    by (simp add: getTask_def startTask_def new_TaskQueue_def createTask_def
        startTask_begin_def startTask_resolved_def emit_def mutate_def map_get_def
        elapsed_def Let_def)
  from startTask_refusals [of "new_TaskQueue :: (unit, unit) task_queue" 7 0 1 "([], Inr ())"] none
  have a: "startTask 0 1 7 ([], Inr ()) (new_TaskQueue :: (unit, unit) task_queue) =
       (Some \<lparr>err_name = ''Error'', err_message = TaskMissing 7\<rparr>, new_TaskQueue)"
    by simp
  from startTask_refusals [of ?q 1 2 3 "([], Inr ())"] q
  have b: "startTask 2 3 1 ([], Inr ()) ?q =
       (Some \<lparr>err_name = ''Error'', err_message = StartNotAllowed COMPLETED\<rparr>, ?q)"
    by simp
  have c: "getTaskStatus ?q 1 = Some COMPLETED"
    using q by (simp add: getTaskStatus_def getTask_def)
  from none a b c show ?thesis by simp
qed

text \<open>
  C8, as the claim has it, fails: the error thrown for an unknown id is an \<open>Error\<close>,
  not a \<open>NotFoundError\<close>.
\<close>

theorem startTask_unknown_id_generic_error:
  "map_option err_name
     (fst (startTask 0 1 7 ([], Inr ()) (new_TaskQueue :: (unit, unit) task_queue)))
     = Some ''Error''
   \<and> map_option err_name
     (fst (startTask 0 1 7 ([], Inr ()) (new_TaskQueue :: (unit, unit) task_queue)))
     \<noteq> Some ''NotFoundError''"
  by (simp add: startTask_def startTask_begin_def new_TaskQueue_def map_get_def new_Error_def)

subsection \<open>What the events do to the status of a task\<close>

lemma status_mutate:
  "getTaskStatus (mutate i f q) j =
     (if j = i then map_option (\<lambda>t. status (f t)) (map_get (tasks q) i)
      else getTaskStatus q j)"
  by (simp add: getTaskStatus_def map_get_mutate option.map_comp comp_def)

lemma status_emit [simp]: "getTaskStatus (emit ev i q) j = getTaskStatus q j"
  by (simp add: getTaskStatus_def)

lemma nextTaskId_emit [simp]: "nextTaskId (emit ev i q) = nextTaskId q"
  by (simp add: emit_def)

lemma nextTaskId_mutate [simp]: "nextTaskId (mutate i f q) = nextTaskId q"
  by (simp add: mutate_def)

lemma fresh_key:
  "list_all (\<lambda>kv. fst kv < n) m \<Longrightarrow> map_get m n = None"
  by (induction m) (auto simp: map_get_def)

lemma status_cancelTask:
  "getTaskStatus (cancelTask i q) j =
     (if j = i \<and> getTaskStatus q i = Some IN_PROGRESS then Some CANCELLED
      else getTaskStatus q j)"
proof (cases "map_get (tasks q) i")
  case None
  then show ?thesis by (simp add: cancelTask_def getTaskStatus_def)
next
  case (Some t)
  then have "getTaskStatus q i = Some (status t)" by (simp add: getTaskStatus_def)
  with Some show ?thesis by (simp add: cancelTask_def status_mutate)
qed

lemma status_updateProgress:
  "getTaskStatus (updateProgress now i p s m q) j = getTaskStatus q j"
proof (cases "map_get (tasks q) i")
  case None
  then show ?thesis by (simp add: updateProgress_def)
next
  case (Some t)
  then have "getTaskStatus q i = Some (status t)" by (simp add: getTaskStatus_def)
  with Some show ?thesis by (simp add: updateProgress_def status_mutate)
qed

lemma status_startTask_begin:
  "getTaskStatus (snd (startTask_begin now i q)) j =
     (if j = i \<and> getTaskStatus q i = Some PENDING then Some IN_PROGRESS
      else getTaskStatus q j)"
proof (cases "map_get (tasks q) i")
  case None
  then show ?thesis by (simp add: startTask_begin_def getTaskStatus_def)
next
  case (Some t)
  then have "getTaskStatus q i = Some (status t)" by (simp add: getTaskStatus_def)
  with Some show ?thesis by (simp add: startTask_begin_def status_mutate)
qed

lemma started_iff:
  "fst (startTask_begin now i q) = None \<longleftrightarrow> getTaskStatus q i = Some PENDING"
  by (cases "map_get (tasks q) i") (simp_all add: startTask_begin_def getTaskStatus_def)

lemma status_startTask_resolved:
  "getTaskStatus (startTask_resolved now i res q) j =
     (if j = i then map_option (\<lambda>t. COMPLETED) (getTaskStatus q i) else getTaskStatus q j)"
  by (cases "map_get (tasks q) i")
    (simp_all add: startTask_resolved_def status_mutate, simp_all add: getTaskStatus_def)

lemma status_startTask_rejected:
  "getTaskStatus (snd (startTask_rejected now i err q)) j =
     (if j = i then map_option (\<lambda>t. FAILED) (getTaskStatus q i) else getTaskStatus q j)"
  by (cases "map_get (tasks q) i")
    (simp_all add: startTask_rejected_def status_mutate, simp_all add: getTaskStatus_def)

lemma status_createTask:
  "getTaskStatus (snd (createTask type opts q)) j =
     (if j = nextTaskId q then Some PENDING else getTaskStatus q j)"
  by (simp add: createTask_def Let_def getTaskStatus_def map_get_map_set)

lemma keys_below_map_set:
  "list_all (\<lambda>kv. fst kv < n) m \<Longrightarrow> list_all (\<lambda>kv. fst kv < Suc n) (map_set n v m)"
  by (induction m) auto

lemma keys_below_mutate:
  "list_all (\<lambda>kv. fst kv < n) (tasks (mutate i f q)) = list_all (\<lambda>kv. fst kv < n) (tasks q)"
proof -
  have "list_all (\<lambda>kv. fst kv < n)
          (map (\<lambda>kv. if fst kv = i then (fst kv, f (snd kv)) else kv) m)
        = list_all (\<lambda>kv. fst kv < n) m" for m :: "(nat \<times> ('a, 'b) task) list"
    by (induction m) auto
  then show ?thesis by (simp add: mutate_def)
qed

lemma keys_below_step:
  assumes "list_all (\<lambda>kv. fst kv < nextTaskId (queue s)) (tasks (queue s))"
  shows "list_all (\<lambda>kv. fst kv < nextTaskId (queue (step_system ev s)))
           (tasks (queue (step_system ev s)))"
proof -
  obtain now e where ev: "ev = (now, e)" by (cases ev)
  show ?thesis
    unfolding ev using assms
    by (cases e)
      (auto simp: createTask_def Let_def keys_below_map_set startTask_begin_def
        startTask_resolved_def startTask_rejected_def cancelTask_def updateProgress_def
        keys_below_mutate split: option.splits)
qed

lemma system_ok_initial: "system_ok initial_system"
  by (simp add: system_ok_def initial_system_def new_TaskQueue_def)

lemma suspended_step:
  assumes "system_ok s" and "i \<in> set (suspended (step_system ev s))"
  shows "getTaskStatus (queue (step_system ev s)) i = Some IN_PROGRESS
       \<or> getTaskStatus (queue (step_system ev s)) i = Some CANCELLED"
proof -
  obtain now e where ev: "ev = (now, e)" by (cases ev)
  from assms(1) have keys: "list_all (\<lambda>kv. fst kv < nextTaskId (queue s)) (tasks (queue s))"
    and dist: "distinct (suspended s)"
    and susp: "\<And>k. k \<in> set (suspended s) \<Longrightarrow>
                 getTaskStatus (queue s) k = Some IN_PROGRESS
               \<or> getTaskStatus (queue s) k = Some CANCELLED"
    by (auto simp: system_ok_def list_all_iff)
  show ?thesis
  proof (cases e)
    case (CreateTask type opts)
    with assms(2) ev have i: "i \<in> set (suspended s)" by simp
    have "getTaskStatus (queue s) (nextTaskId (queue s)) = None"
      using fresh_key [OF keys] by (simp add: getTaskStatus_def)
    with susp [OF i] have "i \<noteq> nextTaskId (queue s)" by auto
    with susp [OF i] show ?thesis
      unfolding ev CreateTask by (simp add: status_createTask)
  next
    case (StartTask j)
    show ?thesis
    proof (cases "getTaskStatus (queue s) j = Some PENDING")
      case True
      then obtain q' where q': "startTask_begin now j (queue s) = (None, q')"
        using started_iff [of now j "queue s"] by (cases "startTask_begin now j (queue s)") auto
      have st: "getTaskStatus q' k =
          (if k = j then Some IN_PROGRESS else getTaskStatus (queue s) k)" for k
        using status_startTask_begin [of now j "queue s" k] True q' by simp
      from assms(2) q' have "i = j \<or> i \<in> set (suspended s)"
        unfolding ev StartTask by auto
      then show ?thesis
        unfolding ev StartTask using q' susp [of i] by (auto simp: st)
    next
      case False
      then have "fst (startTask_begin now j (queue s)) \<noteq> None"
        using started_iff [of now j "queue s"] by simp
      then obtain err q' where q': "startTask_begin now j (queue s) = (Some err, q')"
        by (cases "startTask_begin now j (queue s)") auto
      have "getTaskStatus q' k = getTaskStatus (queue s) k" for k
        using status_startTask_begin [of now j "queue s" k] False q' by simp
      with assms(2) q' susp [of i] show ?thesis
        unfolding ev StartTask by auto
    qed
  next
    case (ExecutorResolves j res)
    show ?thesis
    proof (cases "j \<in> set (suspended s)")
      case True
      from assms(2) True have "i \<in> set (remove1 j (suspended s))"
        unfolding ev ExecutorResolves by simp
      with dist have i: "i \<in> set (suspended s)" and ne: "i \<noteq> j" by auto
      with susp [OF i] True show ?thesis
        unfolding ev ExecutorResolves by (simp add: status_startTask_resolved)
    next
      case False
      with assms(2) susp [of i] show ?thesis
        unfolding ev ExecutorResolves by auto
    qed
  next
    case (ExecutorRejects j err)
    show ?thesis
    proof (cases "j \<in> set (suspended s)")
      case True
      from assms(2) True have "i \<in> set (remove1 j (suspended s))"
        unfolding ev ExecutorRejects by simp
      with dist have i: "i \<in> set (suspended s)" and ne: "i \<noteq> j" by auto
      with susp [OF i] True show ?thesis
        unfolding ev ExecutorRejects by (simp add: status_startTask_rejected)
    next
      case False
      with assms(2) susp [of i] show ?thesis
        unfolding ev ExecutorRejects by auto
    qed
  next
    case (CancelTask j)
    from assms(2) have i: "i \<in> set (suspended s)" unfolding ev CancelTask by simp
    from susp [OF i] show ?thesis
      unfolding ev CancelTask by (auto simp: status_cancelTask)
  next
    case (UpdateProgress j p stp msg)
    from assms(2) have i: "i \<in> set (suspended s)" unfolding ev UpdateProgress by simp
    from susp [OF i] show ?thesis
      unfolding ev UpdateProgress by (simp add: status_updateProgress)
  qed
qed


lemma distinct_suspended_step:
  assumes "system_ok s"
  shows "distinct (suspended (step_system ev s))"
proof -
  obtain now e where ev: "ev = (now, e)" by (cases ev)
  from assms have dist: "distinct (suspended s)"
    and susp: "\<And>k. k \<in> set (suspended s) \<Longrightarrow>
                 getTaskStatus (queue s) k = Some IN_PROGRESS
               \<or> getTaskStatus (queue s) k = Some CANCELLED"
    by (auto simp: system_ok_def list_all_iff)
  show ?thesis
  proof (cases e)
    case (StartTask j)
    show ?thesis
    proof (cases "startTask_begin now j (queue s)")
      case (Pair err q')
      show ?thesis
      proof (cases err)
        case None
        with Pair have "getTaskStatus (queue s) j = Some PENDING"
          using started_iff [of now j "queue s"] by simp
        with susp [of j] have "j \<notin> set (suspended s)" by auto
        with dist Pair None show ?thesis unfolding ev StartTask by simp
      next
        case (Some x)
        with dist Pair show ?thesis unfolding ev StartTask by simp
      qed
    qed
  qed (use dist in \<open>auto simp: ev\<close>)
qed

lemma system_ok_step:
  assumes "system_ok s"
  shows "system_ok (step_system ev s)"
proof -
  from assms have "list_all (\<lambda>kv. fst kv < nextTaskId (queue s)) (tasks (queue s))"
    by (simp add: system_ok_def)
  then show ?thesis
    using keys_below_step [of s ev] distinct_suspended_step [OF assms, of ev]
      suspended_step [OF assms, of _ ev]
    by (auto simp: system_ok_def list_all_iff)
qed

lemma system_ok_run_events: "system_ok s \<Longrightarrow> system_ok (run_events evs s)"
  unfolding run_events_def
  by (induction evs arbitrary: s) (auto simp: system_ok_step)

lemma system_ok_reachable: "system_ok (run_events evs initial_system)"
  by (rule system_ok_run_events) (rule system_ok_initial)

text \<open>
  One event changes the status of a task along an edge of the state machine, or not at
  all, with one exception: the outcome of the executor of a cancelled task makes the
  task completed or failed. No event removes a task.
\<close>

lemma status_step:
  assumes "system_ok s" and "getTaskStatus (queue s) i = Some a"
  shows "\<exists>b. getTaskStatus (queue (step_system ev s)) i = Some b
            \<and> (b = a \<or> allowed_edge a b
               \<or> (a = CANCELLED \<and> (b = COMPLETED \<or> b = FAILED)))"
proof -
  obtain now e where ev: "ev = (now, e)" by (cases ev)
  from assms(1) have keys: "list_all (\<lambda>kv. fst kv < nextTaskId (queue s)) (tasks (queue s))"
    and susp: "\<And>k. k \<in> set (suspended s) \<Longrightarrow>
                 getTaskStatus (queue s) k = Some IN_PROGRESS
               \<or> getTaskStatus (queue s) k = Some CANCELLED"
    by (auto simp: system_ok_def list_all_iff)
  show ?thesis
  proof (cases e)
    case (CreateTask type opts)
    have "getTaskStatus (queue s) (nextTaskId (queue s)) = None"
      using fresh_key [OF keys] by (simp add: getTaskStatus_def)
    with assms(2) have "i \<noteq> nextTaskId (queue s)" by auto
    then show ?thesis
      unfolding ev CreateTask using assms(2) by (simp add: status_createTask)
  next
    case (StartTask j)
    have "getTaskStatus (queue (step_system (now, StartTask j) s)) i
            = getTaskStatus (snd (startTask_begin now j (queue s))) i"
      by (cases "startTask_begin now j (queue s)") (auto split: option.splits)
    then show ?thesis
      unfolding ev StartTask using assms(2) by (auto simp: status_startTask_begin)
  next
    case (ExecutorResolves j res)
    show ?thesis
      unfolding ev ExecutorResolves using assms(2) susp [of j]
      by (auto simp: status_startTask_resolved)
  next
    case (ExecutorRejects j err)
    show ?thesis
      unfolding ev ExecutorRejects using assms(2) susp [of j]
      by (auto simp: status_startTask_rejected)
  next
    case (CancelTask j)
    show ?thesis
      unfolding ev CancelTask using assms(2) by (auto simp: status_cancelTask)
  next
    case (UpdateProgress j p stp msg)
    show ?thesis
      unfolding ev UpdateProgress using assms(2) by (simp add: status_updateProgress)
  qed
qed

text \<open>
  Whatever has happened since it was started, a task whose executor resolves becomes
  completed, and one whose executor rejects becomes failed.
\<close>

lemma settle_sets_status:
  assumes "system_ok s" and "i \<in> set (suspended s)"
  shows "getTaskStatus (queue (step_system (now, ExecutorResolves i res) s)) i = Some COMPLETED"
    and "getTaskStatus (queue (step_system (now, ExecutorRejects i err) s)) i = Some FAILED"
proof -
  from assms have "getTaskStatus (queue s) i = Some IN_PROGRESS
                 \<or> getTaskStatus (queue s) i = Some CANCELLED"
    by (auto simp: system_ok_def list_all_iff)
  then show "getTaskStatus (queue (step_system (now, ExecutorResolves i res) s)) i
               = Some COMPLETED"
    and "getTaskStatus (queue (step_system (now, ExecutorRejects i err) s)) i = Some FAILED"
    using assms(2) by (auto simp: status_startTask_resolved status_startTask_rejected)
qed

subsection \<open>The status of a task over a sequence of events\<close>

text \<open>
  C1. The status of a task is claimed to change along the four edges of the state
  machine only, so that a cancelled task stays cancelled. \<open>cancelTask\<close> does not end the
  suspended \<open>startTask\<close> call, and the continuation of that call sets the status without
  looking at it: after create, start, cancel, the task is cancelled, and when its
  executor then resolves the task is completed (and failed when it rejects). Neither
  is an edge of the state machine. By \<open>status_step\<close> these are the only two changes
  of status outside the state machine.
\<close>

theorem cancelled_task_completed_on_resolve:
  "getTaskStatus (queue (run_events
       [(0, CreateTask ''fullWorkflow'' ()), (1, StartTask 1), (2, CancelTask 1)]
       (initial_system :: (unit, unit) system))) 1 = Some CANCELLED
   \<and> getTaskStatus (queue (run_events
       [(0, CreateTask ''fullWorkflow'' ()), (1, StartTask 1), (2, CancelTask 1),
        (3, ExecutorResolves 1 ())]
       (initial_system :: (unit, unit) system))) 1 = Some COMPLETED
   \<and> getTaskStatus (queue (run_events
       [(0, CreateTask ''fullWorkflow'' ()), (1, StartTask 1), (2, CancelTask 1),
        (3, ExecutorRejects 1 (new_Error (Text ''timeout'')))]
       (initial_system :: (unit, unit) system))) 1 = Some FAILED
   \<and> \<not> allowed_edge CANCELLED COMPLETED \<and> \<not> allowed_edge CANCELLED FAILED"
  by (simp add: run_events_def initial_system_def new_TaskQueue_def createTask_def
      startTask_begin_def startTask_resolved_def startTask_rejected_def cancelTask_def
      getTaskStatus_def emit_def mutate_def map_get_def elapsed_def Let_def)

subsection \<open>getStats\<close>

text \<open>
  C5. \<open>getStats\<close> is claimed to return, for each of the five statuses, the number
  of tasks in that status. The counters are created under the names \<open>pending\<close>,
  \<open>inProgress\<close>, \<open>completed\<close>, \<open>failed\<close>, \<open>cancelled\<close>, and the loop
  increments the property named by the status value, which for a task in progress is
  \<open>in_progress\<close>. On a queue whose only task has been started, the count of tasks in
  progress is therefore reported as 0, and a property \<open>in_progress\<close> with value
  \<open>NaN\<close> appears.
\<close>

theorem getStats_in_progress_not_counted:
  "getTaskStatus
     (snd (startTask_begin 1000 1
        (snd (createTask ''fetchWorkflow'' () (new_TaskQueue :: (unit, unit) task_queue))))) 1
     = Some IN_PROGRESS
   \<and> getStats
     (snd (startTask_begin 1000 1
        (snd (createTask ''fetchWorkflow'' () (new_TaskQueue :: (unit, unit) task_queue)))))
     = [(''total'', Fin 1), (''pending'', Fin 0), (''inProgress'', Fin 0),
        (''completed'', Fin 0), (''failed'', Fin 0), (''cancelled'', Fin 0),
        (''in_progress'', NaN)]"
  by (simp add: getStats_def getTaskStatus_def startTask_begin_def createTask_def
      new_TaskQueue_def emit_def mutate_def map_get_def increment_def Let_def)

section \<open>Properties of the topic selection\<close>

subsection \<open>The sort is descending and stable\<close>

lemma set_insert_by: "set (insert_by cmp x ys) = insert x (set ys)"
  by (induction ys) auto

lemma length_insert_by: "length (insert_by cmp x ys) = Suc (length ys)"
  by (induction ys) auto

lemma length_sort_by: "length (sort_by cmp xs) = length xs"
  by (induction xs) (auto simp: sort_by_def length_insert_by)

lemma sorted_insert_by:
  "sorted_wrt (\<lambda>a b. snd a \<ge> snd b) ys \<Longrightarrow>
   sorted_wrt (\<lambda>a b. snd a \<ge> snd b) (insert_by compare_score x ys)"
proof (induction ys)
  case Nil
  then show ?case by simp
next
  case (Cons y ys)
  show ?case
  proof (cases "compare_score x y \<le> 0")
    case True
    then have "snd y \<le> snd x" by (simp add: compare_score_def)
    with Cons.prems show ?thesis using True by fastforce
  next
    case False
    then have "snd x \<le> snd y" by (simp add: compare_score_def)
    with Cons show ?thesis using False by (auto simp: set_insert_by)
  qed
qed

lemma sorted_sort_by: "sorted_wrt (\<lambda>a b. snd a \<ge> snd b) (sort_by compare_score xs)"
  by (induction xs) (auto simp: sort_by_def sorted_insert_by)

lemma filter_insert_by:
  "filter (\<lambda>y. snd y = s) (insert_by compare_score x ys) =
     (if snd x = s then x # filter (\<lambda>y. snd y = s) ys else filter (\<lambda>y. snd y = s) ys)"
  by (induction ys) (auto simp: compare_score_def)

lemma stable_sort_by:
  "filter (\<lambda>y. snd y = s) (sort_by compare_score xs) = filter (\<lambda>y. snd y = s) xs"
  by (induction xs) (auto simp: sort_by_def filter_insert_by)

lemma example_topics_scored:
  "score_topic E topic_A = Inr (topic_A, 15)"
  "score_topic E topic_B = Inr (topic_B, 14)"
  "score_topic E topic_C = Inr (topic_C, 13)"
  "score_topic E topic_D = Inr (topic_D, 15)"
  by (simp_all add: score_topic_def score_field_def rest_of_def topic_A_def topic_B_def
      topic_C_def topic_D_def)

lemma example_topics_pass:
  "passes E (Fin 6) (Fin 6) (topic_A, 15) = Inr True"
  "passes E (Fin 6) (Fin 6) (topic_B, 14) = Inr False"
  "passes E (Fin 6) (Fin 6) (topic_C, 13) = Inr True"
  "passes E (Fin 6) (Fin 6) (topic_D, 15) = Inr True"
  "passes E (Fin 11) (Fin 11) (topic_A, 15) = Inr False"
  "passes E (Fin 11) (Fin 11) (topic_B, 14) = Inr False"
  "passes E (Fin 11) (Fin 11) (topic_C, 13) = Inr False"
  by (simp_all add: passes_def score_field_def topic_A_def topic_B_def topic_C_def
      topic_D_def)

lemma integer_part_numeral [simp]:
  "integer_part (numeral n) = numeral n" "integer_part 1 = 1" "integer_part 0 = 0"
  by (simp_all add: integer_part_def)

text \<open>
  C3. With thresholds 6 and 6 and at most 2 topics, the topics scored (8, 7), (5, 9),
  (7, 6) give the first and the third, in that order, with scores 15 and 13; the second
  is filtered out for its novelty. With the tied topic (7, 8) after the first, the one
  that comes first in the input comes first in the output. In general the sorted list
  is descending in the score, and the topics of any one score are in it in the order
  they had before: the sort is stable.
\<close>

theorem selection_example_and_stable_sort:
  "filteredTopics E (Fin 6) (Fin 6) [(topic_A, 15), (topic_B, 14), (topic_C, 13)]
     = Inr [(topic_A, 15), (topic_C, 13)]
   \<and> rankedTopics E (Fin 6) (Fin 6) (Fin 2) [topic_A, topic_B, topic_C]
     = Inr [(topic_A, 15), (topic_C, 13)]
   \<and> selectedTopics E (Fin 6) (Fin 6) (Fin 2) [topic_A, topic_B, topic_C]
     = Inr [topic_A, topic_C]
   \<and> selectedTopics E (Fin 6) (Fin 6) (Fin 2) [topic_C, topic_A, topic_D]
     = Inr [topic_A, topic_D]
   \<and> selectedTopics E (Fin 6) (Fin 6) (Fin 2) [topic_C, topic_D, topic_A]
     = Inr [topic_D, topic_A]
   \<and> sorted_wrt (\<lambda>a b. snd a \<ge> snd b) (sort_by compare_score xs)
   \<and> filter (\<lambda>st. snd st = s) (sort_by compare_score xs) = filter (\<lambda>st. snd st = s) xs"
proof -
  note sc = example_topics_scored [of E]
  note ps = example_topics_pass [of E]
  have r1: "rankedTopics E (Fin 6) (Fin 6) (Fin 2) [topic_A, topic_B, topic_C]
     = Inr [(topic_A, 15), (topic_C, 13)]"
    by (simp add: rankedTopics_def sc ps topicsToRank_def sort_by_def compare_score_def)
  have r2: "rankedTopics E (Fin 6) (Fin 6) (Fin 2) [topic_C, topic_A, topic_D]
     = Inr [(topic_A, 15), (topic_D, 15)]"
    by (simp add: rankedTopics_def sc ps topicsToRank_def sort_by_def compare_score_def)
  have r3: "rankedTopics E (Fin 6) (Fin 6) (Fin 2) [topic_C, topic_D, topic_A]
     = Inr [(topic_D, 15), (topic_A, 15)]"
    by (simp add: rankedTopics_def sc ps topicsToRank_def sort_by_def compare_score_def)
  show ?thesis
    by (simp add: selectedTopics_def r1 r2 r3 ps sorted_sort_by stable_sort_by)
qed

subsection \<open>When the conversions throw\<close>

lemma ToString_returns:
  "stringifiable v \<Longrightarrow> \<exists>s. ToString E v = Inr s"
  "all_stringifiable xs \<Longrightarrow> \<exists>s. join_from E xs = Inr s"
proof (induction v and xs rule: stringifiable_all_stringifiable.induct)
  case (8 x xs)
  then obtain s r where "ToString E x = Inr s" "join_from E xs = Inr r" by auto
  then show ?case by simp
qed auto

lemma ToString_throws:
  "\<not> stringifiable v \<Longrightarrow> \<exists>e. ToString E v = Inl e"
  "\<not> all_stringifiable xs \<Longrightarrow> \<exists>e. join_from E xs = Inl e"
proof (induction v and xs rule: stringifiable_all_stringifiable.induct)
  case (8 x xs)
  show ?case
  proof (cases "stringifiable x")
    case False
    with 8 obtain e where "ToString E x = Inl e" by auto
    moreover from False have "x \<noteq> JNull" by auto
    ultimately show ?thesis by simp
  next
    case True
    with 8 obtain e where e: "join_from E xs = Inl e" by auto
    then have "xs \<noteq> []" by auto
    from True obtain s where "ToString E x = Inr s"
      using ToString_returns(1) by blast
    with e \<open>xs \<noteq> []\<close> show ?thesis by simp
  qed
qed auto

lemma Number_of_field:
  assumes "stringifiable (nullish_zero v)"
  shows "\<exists>x. Number_of E (nullish_zero v) = Inr x \<and> finite_or_zero x = contribution E v"
proof (cases v)
  case None
  then show ?thesis by simp
next
  case (Some j)
  show ?thesis
  proof (cases j)
    case (JNum n)
    with Some show ?thesis by (cases n) auto
  next
    case (JArr xs)
    with Some assms obtain s where "ToString E (JArr xs) = Inr s"
      using ToString_returns(1) [of "JArr xs" E] by auto
    with Some JArr show ?thesis by simp
  next
    case (JObj kvs)
    with Some assms obtain s where "ToString E (JObj kvs) = Inr s"
      using ToString_returns(1) [of "JObj kvs" E] by auto
    with Some JObj show ?thesis by simp
  qed (use Some in auto)
qed

lemma Number_of_field_throws:
  assumes "\<not> stringifiable (nullish_zero v)"
  shows "\<exists>e. Number_of E (nullish_zero v) = Inl e"
proof (cases v)
  case None
  with assms show ?thesis by simp
next
  case (Some j)
  show ?thesis
  proof (cases j)
    case (JArr xs)
    with Some assms obtain e where "ToString E (JArr xs) = Inl e"
      using ToString_throws(1) [of "JArr xs" E] by auto
    with Some JArr show ?thesis by simp
  next
    case (JObj kvs)
    with Some assms obtain e where "ToString E (JObj kvs) = Inl e"
      using ToString_throws(1) [of "JObj kvs" E] by auto
    with Some JObj show ?thesis by simp
  qed (use Some assms in auto)
qed

lemma get_property_not_null:
  "t \<noteq> JNull \<Longrightarrow> get_property t p = Inr (own_property t p)"
  by (cases t) auto

lemma score_field_scorable:
  assumes "t \<noteq> JNull" and "stringifiable (nullish_zero (own_property t p))"
  shows "score_field E t p = Inr (contribution E (own_property t p))"
  using Number_of_field [OF assms(2), of E] assms(1)
  by (auto simp: score_field_def get_property_not_null)

lemma score_field_throws:
  assumes "t = JNull \<or> \<not> stringifiable (nullish_zero (own_property t p))"
  shows "\<exists>e. score_field E t p = Inl e"
proof (cases "t = JNull")
  case True
  then show ?thesis by (simp add: score_field_def)
next
  case False
  with assms have "\<not> stringifiable (nullish_zero (own_property t p))" by simp
  from Number_of_field_throws [OF this, of E] False show ?thesis
    by (auto simp: score_field_def get_property_not_null)
qed

lemma score_topic_scorable:
  "scorable t \<Longrightarrow> score_topic E t = Inr (rest_of t, expected_score E t)"
  by (simp add: scorable_def score_topic_def expected_score_def score_field_scorable)

lemma score_topic_throws:
  assumes "\<not> scorable t"
  shows "\<exists>e. score_topic E t = Inl e"
proof (cases "t = JNull \<or> \<not> stringifiable (nullish_zero (own_property t ''noveltyScore''))")
  case True
  from score_field_throws [OF this, of E] show ?thesis
    by (auto simp: score_topic_def)
next
  case False
  with assms have "t = JNull \<or> \<not> stringifiable (nullish_zero (own_property t ''impactScore''))"
    by (simp add: scorable_def)
  from score_field_throws [OF this, of E] show ?thesis
    by (cases "score_field E t ''noveltyScore''") (auto simp: score_topic_def)
qed

lemma scoredTopics_scorable:
  "\<forall>t \<in> set topics. scorable t \<Longrightarrow>
   scoredTopics E topics = Inr (map (\<lambda>t. (rest_of t, expected_score E t)) topics)"
  by (induction topics) (auto simp: score_topic_scorable)

text \<open>
  The condition is the weakest one: on a list with an element that cannot be scored, the
  score computation throws.
\<close>

lemma scoredTopics_throws:
  "\<not> (\<forall>t \<in> set topics. scorable t) \<Longrightarrow> \<exists>e. scoredTopics E topics = Inl e"
proof (induction topics)
  case Nil
  then show ?case by simp
next
  case (Cons t topics)
  show ?case
  proof (cases "scorable t")
    case False
    from score_topic_throws [OF this, of E] show ?thesis by auto
  next
    case True
    with Cons obtain e where "scoredTopics E topics = Inl e" by auto
    with True show ?thesis by (simp add: score_topic_scorable)
  qed
qed

subsection \<open>The copy of a topic has the topic's score fields\<close>

lemma decimal_digits: "set (decimal n) \<subseteq> set ''0123456789''"
proof (induction n rule: decimal.induct)
  case (1 n)
  show ?case
  proof (cases "n < 10")
    case True
    then have "''0123456789'' ! n \<in> set ''0123456789''"
      by (intro nth_mem) simp
    with True show ?thesis by (subst decimal.simps) simp
  next
    case False
    have "n mod 10 < 10" by simp
    then have "''0123456789'' ! (n mod 10) \<in> set ''0123456789''"
      by (intro nth_mem) simp
    with False 1 show ?thesis by (subst decimal.simps) auto
  qed
qed

lemma indexed_no_score_field:
  assumes "CHR ''c'' \<in> set p"
  shows "map_of (filter P (indexed xs)) p = None"
proof -
  have "\<forall>i. p \<noteq> decimal i"
    using decimal_digits assms by auto
  then have "p \<notin> fst ` set (indexed xs)"
    by (auto simp: indexed_def dest!: set_zip_leftD)
  then have "p \<notin> fst ` set (filter P (indexed xs))" by auto
  then show ?thesis by (simp add: map_of_eq_None_iff)
qed

lemma map_of_filter_other_key:
  "p \<noteq> k \<Longrightarrow> map_of (filter (\<lambda>kv. fst kv \<noteq> k) kvs) p = map_of kvs p"
  by (induction kvs) auto

lemma own_property_rest_of:
  assumes "p = ''noveltyScore'' \<or> p = ''impactScore''"
  shows "own_property (rest_of t) p = own_property t p"
proof -
  from assms have c: "CHR ''c'' \<in> set p" and ne: "p \<noteq> ''_score''" by auto
  show ?thesis
  proof (cases t)
    case (JObj kvs)
    then show ?thesis using ne by (simp add: rest_of_def map_of_filter_other_key)
  next
    case (JArr xs)
    then show ?thesis using c by (simp add: rest_of_def indexed_no_score_field)
  next
    case (JStr s)
    then show ?thesis using c by (simp add: rest_of_def indexed_no_score_field)
  qed (simp_all add: rest_of_def)
qed

lemma scorable_rest_of: "scorable t \<Longrightarrow> scorable (rest_of t)"
  by (simp add: scorable_def own_property_rest_of) (simp add: rest_of_def)

lemma passes_scorable:
  assumes "scorable (fst st)"
  shows "\<exists>b. passes E mn mi st = Inr b"
proof -
  from assms have "fst st \<noteq> JNull"
    and "stringifiable (nullish_zero (own_property (fst st) ''noveltyScore''))"
    and "stringifiable (nullish_zero (own_property (fst st) ''impactScore''))"
    by (simp_all add: scorable_def)
  then show ?thesis by (simp add: passes_def score_field_scorable)
qed

lemma filteredTopics_scorable:
  "\<forall>st \<in> set sts. scorable (fst st) \<Longrightarrow>
   \<exists>fs. filteredTopics E mn mi sts = Inr fs \<and> length fs \<le> length sts"
proof (induction sts)
  case Nil
  then show ?case by simp
next
  case (Cons st sts)
  then obtain fs where k: "filteredTopics E mn mi sts = Inr fs" "length fs \<le> length sts"
    by auto
  from Cons.prems obtain b where b: "passes E mn mi st = Inr b"
    using passes_scorable [of st E mn mi] by auto
  show ?case using k b by auto
qed

lemma selection_steps:
  assumes "\<forall>t \<in> set topics. scorable t"
  shows "\<exists>fs. scoredTopics E topics = Inr (map (\<lambda>t. (rest_of t, expected_score E t)) topics)
            \<and> filteredTopics E mn mi (map (\<lambda>t. (rest_of t, expected_score E t)) topics) = Inr fs
            \<and> selectedTopics E mn mi mt topics =
                Inr (map fst (slice_to (max_one mt) (sort_by compare_score
                  (topicsToRank fs (map (\<lambda>t. (rest_of t, expected_score E t)) topics)))))"
proof -
  let ?sa = "map (\<lambda>t. (rest_of t, expected_score E t)) topics"
  have sa: "scoredTopics E topics = Inr ?sa"
    using assms by (rule scoredTopics_scorable)
  have "\<forall>st \<in> set ?sa. scorable (fst st)" using assms by (auto simp: scorable_rest_of)
  then obtain fs where f: "filteredTopics E mn mi ?sa = Inr fs"
    using filteredTopics_scorable [of ?sa E mn mi] by auto
  show ?thesis using sa f by (simp add: selectedTopics_def rankedTopics_def)
qed

lemma selectedTopics_scorable:
  assumes "\<forall>t \<in> set topics. scorable t"
  shows "\<exists>selected. selectedTopics E mn mi mt topics = Inr selected"
  using selection_steps [OF assms, of E mn mi mt] by auto

text \<open>
  The selection throws on exactly the lists on which the score computation throws, and
  with a \<open>maxTopics\<close> that is \<open>NaN\<close> it selects nothing, whatever the topics.
\<close>

lemma selectedTopics_throws:
  assumes "\<not> (\<forall>t \<in> set topics. scorable t)"
  shows "\<exists>e. selectedTopics E mn mi mt topics = Inl e"
  using scoredTopics_throws [OF assms, of E]
  by (auto simp: selectedTopics_def rankedTopics_def)

lemma selectedTopics_nan:
  assumes "\<forall>t \<in> set topics. scorable t"
  shows "selectedTopics E mn mi NaN topics = Inr []"
  using selection_steps [OF assms, of E mn mi NaN] by auto

subsection \<open>The scores\<close>




subsection \<open>The number of selected topics\<close>

lemma length_slice_to:
  assumes "xs \<noteq> []"
  shows "int (length (slice_to (max_one (Fin m)) xs)) = min (int (length xs)) \<lfloor>max 1 m\<rfloor>"
proof -
  define k where "k = \<lfloor>max 1 m\<rfloor>"
  have k: "1 \<le> k" by (simp add: k_def le_floor_iff)
  have "\<not> max 1 m < 0" by simp
  then have ip: "integer_part (max 1 m) = k" by (simp only: integer_part_def k_def if_False)
  have "slice_to (max_one (Fin m)) xs = take (nat (min k (int (length xs)))) xs"
    using k by (simp add: ip)
  then have "length (slice_to (max_one (Fin m)) xs) = nat (min k (int (length xs)))"
    by simp
  then show ?thesis using k unfolding k_def [symmetric] by (auto simp: min_def)
qed

text \<open>
  C4, as the code has it. For a non-empty list of topics that can be scored and a
  \<open>maxTopics\<close> that is a number other than \<open>NaN\<close>, the selection does not throw and
  returns a non-empty list; the list to rank is the filtered list when that is
  non-empty and the whole scored list otherwise, and the number of topics returned is
  the smaller of its length and the integer part of \<open>max(1, maxTopics)\<close>: all of
  them for \<open>+Infinity\<close>, one for \<open>-Infinity\<close>.
\<close>

theorem selection_length:
  assumes "topics \<noteq> []" and "\<forall>t \<in> set topics. scorable t"
  shows "\<exists>scoredAll filtered.
           scoredTopics E topics = Inr scoredAll
         \<and> filteredTopics E mn mi scoredAll = Inr filtered
         \<and> topicsToRank filtered scoredAll = (if filtered = [] then scoredAll else filtered)
         \<and> (\<exists>selected. selectedTopics E mn mi (Fin m) topics = Inr selected
               \<and> selected \<noteq> []
               \<and> int (length selected)
                   = min (int (length (topicsToRank filtered scoredAll))) \<lfloor>max 1 m\<rfloor>)
         \<and> (\<exists>selected. selectedTopics E mn mi PosInf topics = Inr selected
               \<and> selected \<noteq> []
               \<and> length selected = length (topicsToRank filtered scoredAll))
         \<and> (\<exists>selected. selectedTopics E mn mi NegInf topics = Inr selected
               \<and> length selected = 1)"
proof -
  let ?sa = "map (\<lambda>t. (rest_of t, expected_score E t)) topics"
  from selection_steps [OF assms(2), of E mn mi]
  obtain fs where sa: "scoredTopics E topics = Inr ?sa"
    and f: "filteredTopics E mn mi ?sa = Inr fs"
    by blast
  let ?r = "topicsToRank fs ?sa"
  let ?sorted = "sort_by compare_score ?r"
  have sel: "selectedTopics E mn mi mt topics = Inr (map fst (slice_to (max_one mt) ?sorted))"
    for mt
    by (simp add: selectedTopics_def rankedTopics_def sa f)
  have ne: "?r \<noteq> []" using assms(1) by (auto simp: topicsToRank_def)
  then have ne': "?sorted \<noteq> []"
    using length_sort_by [of compare_score ?r] by (metis length_0_conv)
  have len: "int (length (slice_to (max_one (Fin m)) ?sorted))
               = min (int (length ?r)) \<lfloor>max 1 m\<rfloor>"
    using length_slice_to [OF ne', of m] by (simp add: length_sort_by)
  have "1 \<le> \<lfloor>max 1 m\<rfloor>" by (simp add: le_floor_iff)
  moreover have "1 \<le> int (length ?r)" using ne by (cases ?r) auto
  ultimately have "1 \<le> int (length (slice_to (max_one (Fin m)) ?sorted))"
    using len by simp
  then have pos: "slice_to (max_one (Fin m)) ?sorted \<noteq> []" by auto
  have one: "length (slice_to (max_one NegInf) ?sorted) = 1"
    using ne' by (cases ?sorted) (simp_all add: integer_part_def)
  have ttr: "?r = (if fs = [] then ?sa else fs)" by (simp add: topicsToRank_def)
  have a: "\<exists>selected. selectedTopics E mn mi (Fin m) topics = Inr selected
               \<and> selected \<noteq> []
               \<and> int (length selected) = min (int (length ?r)) \<lfloor>max 1 m\<rfloor>"
    using sel [of "Fin m"] pos len by simp
  have b: "\<exists>selected. selectedTopics E mn mi PosInf topics = Inr selected
               \<and> selected \<noteq> [] \<and> length selected = length ?r"
    using sel [of PosInf] ne' by (simp add: length_sort_by)
  have c: "\<exists>selected. selectedTopics E mn mi NegInf topics = Inr selected
               \<and> length selected = 1"
    using sel [of NegInf] one by simp
  from sa f ttr a b c show ?thesis by blast
qed

theorem selection_length_witness:
  "\<forall>E. [topic_A, topic_D, topic_C] \<noteq> []
     \<and> scorable topic_A \<and> scorable topic_D \<and> scorable topic_C
     \<and> selectedTopics E (Fin 6) (Fin 6) (Fin (5 / 2)) [topic_A, topic_D, topic_C]
         = Inr [topic_A, topic_D]
     \<and> \<lfloor>max 1 (5 / 2 :: rat)\<rfloor> = 2
     \<and> selectedTopics E (Fin 11) (Fin 11) (Fin 0) [topic_A, topic_D, topic_C]
         = Inr [topic_A]"
proof
  fix E
  have ne: "[topic_A, topic_D, topic_C] \<noteq> []" by simp
  have p: "scorable topic_A" "scorable topic_D" "scorable topic_C"
    by (simp_all add: scorable_def topic_A_def topic_D_def topic_C_def)
  then have pl: "\<forall>t \<in> set [topic_A, topic_D, topic_C]. scorable t" by simp
  note sc = example_topics_scored [of E]
  note ps = example_topics_pass [of E]
  have fl: "\<lfloor>max 1 (5 / 2 :: rat)\<rfloor> = 2"
    by (rule floor_unique) simp_all
  have ip: "integer_part (5 / 2) = 2"
    using fl by (simp add: integer_part_def max_def)
  have ps11: "passes E (Fin 11) (Fin 11) (topic_D, 15) = Inr False"
    by (simp add: passes_def score_field_def topic_D_def)
  have s1: "selectedTopics E (Fin 6) (Fin 6) (Fin (5 / 2)) [topic_A, topic_D, topic_C]
         = Inr [topic_A, topic_D]"
    by (simp add: selectedTopics_def rankedTopics_def sc ps topicsToRank_def sort_by_def
        compare_score_def ip max_def)
  have s2: "selectedTopics E (Fin 11) (Fin 11) (Fin 0) [topic_A, topic_D, topic_C]
         = Inr [topic_A]"
    by (simp add: selectedTopics_def rankedTopics_def sc ps ps11 topicsToRank_def
        sort_by_def compare_score_def ip)
  from selection_length [OF ne pl, of E "Fin 6" "Fin 6" "5 / 2"]
  have "\<exists>selected. selectedTopics E (Fin 6) (Fin 6) (Fin (5 / 2)) [topic_A, topic_D, topic_C]
          = Inr selected \<and> selected \<noteq> []"
    by blast
  with ne p s1 s2 fl
  show "[topic_A, topic_D, topic_C] \<noteq> []
     \<and> scorable topic_A \<and> scorable topic_D \<and> scorable topic_C
     \<and> selectedTopics E (Fin 6) (Fin 6) (Fin (5 / 2)) [topic_A, topic_D, topic_C]
         = Inr [topic_A, topic_D]
     \<and> \<lfloor>max 1 (5 / 2 :: rat)\<rfloor> = 2
     \<and> selectedTopics E (Fin 11) (Fin 11) (Fin 0) [topic_A, topic_D, topic_C]
         = Inr [topic_A]"
    by simp
qed

text \<open>
  C4, as the claim has it, fails in three ways. With a \<open>maxTopics\<close> of 2.5 and three
  topics that pass the thresholds, two topics are returned, which is not
  \<open>min(3, max(1, 2.5))\<close>. With a \<open>maxTopics\<close> that is \<open>NaN\<close>, as \<open>Number\<close> gives
  for a text that is no number, the selection from a non-empty list is empty. With a
  \<open>null\<close> element in the list, the selection throws and returns no list.
\<close>

theorem selection_fraction_nan_and_null:
  "\<forall>E. selectedTopics E (Fin 6) (Fin 6) (Fin (5 / 2)) [topic_A, topic_D, topic_C]
          = Inr [topic_A, topic_D]
     \<and> (of_nat (length [topic_A, topic_D]) :: rat) \<noteq> min 3 (max 1 (5 / 2))
     \<and> selectedTopics E (Fin 6) (Fin 6) NaN [topic_A] = Inr []
     \<and> selectedTopics E (Fin 6) (Fin 6) (Fin 2) [topic_A, JNull]
          = Inl \<lparr>err_name = ''TypeError'', err_message = CannotReadProperty ''noveltyScore''\<rparr>"
proof
  fix E
  note sc = example_topics_scored [of E]
  note ps = example_topics_pass [of E]
  have "\<lfloor>5 / 2 :: rat\<rfloor> = 2" by (rule floor_unique) simp_all
  then have ip: "integer_part (5 / 2) = 2" by (simp add: integer_part_def)
  have s1: "selectedTopics E (Fin 6) (Fin 6) (Fin (5 / 2)) [topic_A, topic_D, topic_C]
         = Inr [topic_A, topic_D]"
    by (simp add: selectedTopics_def rankedTopics_def sc ps topicsToRank_def sort_by_def
        compare_score_def ip max_def)
  have s2: "selectedTopics E (Fin 6) (Fin 6) NaN [topic_A] = Inr []"
    by (simp add: selectedTopics_def rankedTopics_def sc ps topicsToRank_def)
  have null: "score_topic E JNull
          = Inl \<lparr>err_name = ''TypeError'', err_message = CannotReadProperty ''noveltyScore''\<rparr>"
    by (simp add: score_topic_def score_field_def new_TypeError_def)
  have s3: "selectedTopics E (Fin 6) (Fin 6) (Fin 2) [topic_A, JNull]
          = Inl \<lparr>err_name = ''TypeError'', err_message = CannotReadProperty ''noveltyScore''\<rparr>"
    by (simp add: selectedTopics_def rankedTopics_def sc null)
  have s4: "(of_nat (length [topic_A, topic_D]) :: rat) \<noteq> min 3 (max 1 (5 / 2))"
    by simp
  from s1 s2 s3 s4
  show "selectedTopics E (Fin 6) (Fin 6) (Fin (5 / 2)) [topic_A, topic_D, topic_C]
          = Inr [topic_A, topic_D]
     \<and> (of_nat (length [topic_A, topic_D]) :: rat) \<noteq> min 3 (max 1 (5 / 2))
     \<and> selectedTopics E (Fin 6) (Fin 6) NaN [topic_A] = Inr []
     \<and> selectedTopics E (Fin 6) (Fin 6) (Fin 2) [topic_A, JNull]
          = Inl \<lparr>err_name = ''TypeError'', err_message = CannotReadProperty ''noveltyScore''\<rparr>"
    by blast
qed

section \<open>Properties of the workflows\<close>

subsection \<open>A task run by startTask\<close>

lemma updateProgress_in_progress:
  assumes "map_get (tasks q) i = Some t" and "status t = IN_PROGRESS"
  shows "\<exists>t'. map_get (tasks (updateProgress now i p s m q)) i = Some t'
              \<and> status t' = IN_PROGRESS"
  using assms by (simp add: updateProgress_def map_get_mutate)

lemma fold_updateProgress_in_progress:
  assumes "map_get (tasks q) i = Some t" and "status t = IN_PROGRESS"
  shows "\<exists>t'. map_get (tasks (fold (\<lambda>call. updateProgress now i (fst call) (fst (snd call))
                                      (snd (snd call))) calls q)) i = Some t'
              \<and> status t' = IN_PROGRESS"
  using assms
proof (induction calls arbitrary: q t)
  case Nil
  then show ?case by simp
next
  case (Cons call calls)
  from updateProgress_in_progress [OF Cons.prems, of now "fst call" "fst (snd call)" "snd (snd call)"]
  obtain t' where "map_get (tasks (updateProgress now i (fst call) (fst (snd call))
      (snd (snd call)) q)) i = Some t'" "status t' = IN_PROGRESS"
    by blast
  from Cons.IH [OF this] show ?case by simp
qed

lemma startTask_begin_pending:
  assumes "getTaskStatus q i = Some PENDING"
  shows "fst (startTask_begin now i q) = None
       \<and> (\<exists>t. map_get (tasks (snd (startTask_begin now i q))) i = Some t
              \<and> status t = IN_PROGRESS)"
  using assms
  by (auto simp: getTaskStatus_def startTask_begin_def map_get_mutate split: option.splits)

lemma startTask_outcome:
  assumes "getTaskStatus q i = Some PENDING"
  shows "snd run = Inr res \<Longrightarrow>
           fst (startTask t0 t1 i run q) = None
         \<and> (\<exists>t. getTask (snd (startTask t0 t1 i run q)) i = Some t
                \<and> status t = COMPLETED \<and> result t = Some res)"
    and "snd run = Inl err \<Longrightarrow>
           fst (startTask t0 t1 i run q) = Some err
         \<and> getTaskStatus (snd (startTask t0 t1 i run q)) i = Some FAILED"
proof -
  obtain q' where b: "startTask_begin t0 i q = (None, q')"
    using startTask_begin_pending [OF assms, of t0] by (cases "startTask_begin t0 i q") auto
  with startTask_begin_pending [OF assms, of t0]
  obtain t where t: "map_get (tasks q') i = Some t" "status t = IN_PROGRESS" by auto
  let ?q'' = "fold (\<lambda>call. updateProgress t0 i (fst call) (fst (snd call))
                                      (snd (snd call))) (fst run) q'"
  from fold_updateProgress_in_progress [OF t, of t0 "fst run"]
  obtain t' where t': "map_get (tasks ?q'') i = Some t'" by blast
  show "snd run = Inr res \<Longrightarrow>
           fst (startTask t0 t1 i run q) = None
         \<and> (\<exists>t. getTask (snd (startTask t0 t1 i run q)) i = Some t
                \<and> status t = COMPLETED \<and> result t = Some res)"
    using b t' by (simp add: startTask_def startTask_resolved_def getTask_def map_get_mutate)
  show "snd run = Inl err \<Longrightarrow>
           fst (startTask t0 t1 i run q) = Some err
         \<and> getTaskStatus (snd (startTask t0 t1 i run q)) i = Some FAILED"
    using b t'
    by (simp add: startTask_def startTask_rejected_def getTaskStatus_def map_get_mutate)
qed

lemma created_task_pending:
  "getTaskStatus (snd (createTask type opts q)) (fst (createTask type opts q)) = Some PENDING"
  by (simp add: createTask_def getTaskStatus_def Let_def map_get_map_set)

text \<open>
  A workflow whose task can be started and whose executor resolves returns the
  executor's value and leaves the task completed; when the executor rejects, it
  returns a failure result and leaves the task failed.
\<close>

lemma run_workflow_resolved:
  assumes "can_start taskId_arg q" and "snd run = Inr res"
  shows "fst (run_workflow type opts failed t0 t1 taskId_arg run q) = Some res"
    and "getTaskStatus (snd (run_workflow type opts failed t0 t1 taskId_arg run q))
           (workflow_task_id taskId_arg q) = Some COMPLETED"
proof -
  let ?created = "case taskId_arg of None \<Rightarrow> createTask type opts q | Some i \<Rightarrow> (i, q)"
  have id: "fst ?created = workflow_task_id taskId_arg q"
    by (simp add: workflow_task_id_def createTask_def Let_def split: option.splits)
  have pend: "getTaskStatus (snd ?created) (fst ?created) = Some PENDING"
    using assms(1) by (auto simp: can_start_def created_task_pending split: option.splits)
  from startTask_outcome(1) [OF pend assms(2), of t0 t1]
  obtain t where st: "fst (startTask t0 t1 (fst ?created) run (snd ?created)) = None"
    and t: "getTask (snd (startTask t0 t1 (fst ?created) run (snd ?created))) (fst ?created) = Some t"
      "status t = COMPLETED" "result t = Some res"
    by blast
  obtain q' where q': "startTask t0 t1 (fst ?created) run (snd ?created) = (None, q')"
    using st by (cases "startTask t0 t1 (fst ?created) run (snd ?created)") auto
  with t have t2: "getTask q' (fst ?created) = Some t" by simp
  show "fst (run_workflow type opts failed t0 t1 taskId_arg run q) = Some res"
    using q' t2 t(2,3) by (simp add: run_workflow_def Let_def)
  show "getTaskStatus (snd (run_workflow type opts failed t0 t1 taskId_arg run q))
           (workflow_task_id taskId_arg q) = Some COMPLETED"
    using q' t2 t(2,3) id by (simp add: run_workflow_def Let_def getTaskStatus_def getTask_def)
qed

lemma run_workflow_rejected:
  assumes "can_start taskId_arg q" and "snd run = Inl err"
  shows "fst (run_workflow type opts failed t0 t1 taskId_arg run q)
           = Some (WorkflowResult False failed (ErrorData err))"
    and "getTaskStatus (snd (run_workflow type opts failed t0 t1 taskId_arg run q))
           (workflow_task_id taskId_arg q) = Some FAILED"
proof -
  let ?created = "case taskId_arg of None \<Rightarrow> createTask type opts q | Some i \<Rightarrow> (i, q)"
  have id: "fst ?created = workflow_task_id taskId_arg q"
    by (simp add: workflow_task_id_def createTask_def Let_def split: option.splits)
  have pend: "getTaskStatus (snd ?created) (fst ?created) = Some PENDING"
    using assms(1) by (auto simp: can_start_def created_task_pending split: option.splits)
  from startTask_outcome(2) [OF pend assms(2), of t0 t1]
  have st: "fst (startTask t0 t1 (fst ?created) run (snd ?created)) = Some err"
    and f: "getTaskStatus (snd (startTask t0 t1 (fst ?created) run (snd ?created)))
              (fst ?created) = Some FAILED"
    by blast+
  obtain q' where q': "startTask t0 t1 (fst ?created) run (snd ?created) = (Some err, q')"
    using st by (cases "startTask t0 t1 (fst ?created) run (snd ?created)") auto
  show "fst (run_workflow type opts failed t0 t1 taskId_arg run q)
           = Some (WorkflowResult False failed (ErrorData err))"
    using q' by (simp add: run_workflow_def Let_def createWorkflowResult_def)
  show "getTaskStatus (snd (run_workflow type opts failed t0 t1 taskId_arg run q))
           (workflow_task_id taskId_arg q) = Some FAILED"
    using q' f id by (simp add: run_workflow_def Let_def)
qed

lemma run_workflow_value:
  assumes "fst (run_workflow type opts failed t0 t1 taskId_arg run q) = Some v"
  shows "(\<exists>d. v = WorkflowResult False failed d \<and> (\<forall>rep. d \<noteq> ReportData rep))
       \<or> snd run = Inr v"
proof -
  let ?created = "case taskId_arg of None \<Rightarrow> createTask type opts q | Some i \<Rightarrow> (i, q)"
  let ?i = "fst ?created"
  obtain err q' where st: "startTask t0 t1 ?i run (snd ?created) = (err, q')"
    by (cases "startTask t0 t1 ?i run (snd ?created)")
  show ?thesis
  proof (cases err)
    case (Some e)
    with st assms show ?thesis
      by (auto simp: run_workflow_def Let_def createWorkflowResult_def)
  next
    case None
    obtain b q1 where bg: "startTask_begin t0 ?i (snd ?created) = (b, q1)"
      by (cases "startTask_begin t0 ?i (snd ?created)")
    from st None bg obtain res where res: "snd run = Inr res"
      and q': "q' = startTask_resolved t1 ?i res
                 (fold (\<lambda>call. updateProgress t0 ?i (fst call) (fst (snd call))
                                      (snd (snd call))) (fst run) q1)"
      by (cases b; cases "snd run") (auto simp: startTask_def Let_def)
    show ?thesis
    proof (cases "getTask q' ?i")
      case None
      with st \<open>err = None\<close> assms show ?thesis
        by (auto simp: run_workflow_def Let_def createWorkflowResult_def)
    next
      case (Some task)
      then have r: "result task = Some res"
        unfolding q' by (auto simp: getTask_def startTask_resolved_def map_get_mutate)
      with st \<open>err = None\<close> Some assms res show ?thesis
        by (auto simp: run_workflow_def Let_def createWorkflowResult_def
            split: if_splits option.splits)
    qed
  qed
qed

subsection \<open>The full workflow when nothing is fetched\<close>

text \<open>
  C7. When the configuration loads and the fetch returns no item, the full workflow
  returns the result with \<open>success\<close> false and the message that no article was
  fetched, and its task ends completed.
\<close>

theorem full_workflow_nothing_fetched:
  assumes "loadConfig_reply env = Inr c" and "fetch_reply env = Inr []"
    and "can_start taskId_arg q"
  shows "fst (executeFullWorkflow E t0 t1 blogCount opts cb taskId_arg env q)
           = Some (WorkflowResult False NoArticlesFetched NoData)
       \<and> getTaskStatus (snd (executeFullWorkflow E t0 t1 blogCount opts cb taskId_arg env q))
           (workflow_task_id taskId_arg q) = Some COMPLETED"
proof -
  have "snd (fullWorkflow_executor E t0 t1 blogCount cb env)
          = Inr (WorkflowResult False NoArticlesFetched NoData)"
    using assms(1,2) by (simp add: fullWorkflow_executor_def Let_def createWorkflowResult_def)
  from run_workflow_resolved [OF assms(3) this] show ?thesis
    by (simp add: executeFullWorkflow_def)
qed

theorem full_workflow_nothing_fetched_witness:
  "\<forall>E. loadConfig_reply example_env_nothing_fetched = Inr example_config
     \<and> fetch_reply example_env_nothing_fetched = Inr []
     \<and> can_start None (new_TaskQueue :: (unit, wf_value) task_queue)
     \<and> fst (executeFullWorkflow E 0 1 3 () False None example_env_nothing_fetched new_TaskQueue)
         = Some (WorkflowResult False NoArticlesFetched NoData)
     \<and> getTaskStatus
         (snd (executeFullWorkflow E 0 1 3 () False None example_env_nothing_fetched
                 (new_TaskQueue :: (unit, wf_value) task_queue))) 1 = Some COMPLETED"
proof
  fix E
  have a: "loadConfig_reply example_env_nothing_fetched = Inr example_config"
    and b: "fetch_reply example_env_nothing_fetched = Inr []"
    by (simp_all add: example_env_nothing_fetched_def example_env_def)
  have c: "can_start None (new_TaskQueue :: (unit, wf_value) task_queue)"
    by (simp add: can_start_def)
  have i: "workflow_task_id None (new_TaskQueue :: (unit, wf_value) task_queue) = 1"
    by (simp add: workflow_task_id_def new_TaskQueue_def)
  from full_workflow_nothing_fetched [OF a b c, of E 0 1 3 "()" False] a b c
  show "loadConfig_reply example_env_nothing_fetched = Inr example_config
     \<and> fetch_reply example_env_nothing_fetched = Inr []
     \<and> can_start None (new_TaskQueue :: (unit, wf_value) task_queue)
     \<and> fst (executeFullWorkflow E 0 1 3 () False None example_env_nothing_fetched new_TaskQueue)
         = Some (WorkflowResult False NoArticlesFetched NoData)
     \<and> getTaskStatus
         (snd (executeFullWorkflow E 0 1 3 () False None example_env_nothing_fetched
                 (new_TaskQueue :: (unit, wf_value) task_queue))) 1 = Some COMPLETED"
    unfolding i by blast
qed

subsection \<open>The count of generated blogs\<close>

text \<open>
  What an iteration does, told from what the collaborators answer: it ends the loop
  exactly when the selection returns no article, it adds an entry exactly when all of
  its steps return, and in every other case (the selection, the analysis, the
  generation, the saving or the marking throws) it fails and adds nothing.
\<close>

lemma run_iteration_stops:
  "run_iteration E c ienv = NoArticles \<longleftrightarrow> iteration_stops ienv"
  by (auto simp: run_iteration_def iteration_stops_def Let_def
      split: sum.splits option.splits if_splits)

lemma run_iteration_succeeds:
  "is_generated (run_iteration E c ienv) \<longleftrightarrow> iteration_succeeds E c ienv"
  by (auto simp: run_iteration_def iteration_succeeds_def Let_def
      split: sum.splits option.splits if_splits)

lemma run_iteration_fails:
  "(\<exists>e. run_iteration E c ienv = IterationFailed e)
     \<longleftrightarrow> \<not> iteration_stops ienv \<and> \<not> iteration_succeeds E c ienv"
  using run_iteration_stops [of E c ienv] run_iteration_succeeds [of E c ienv]
  by (cases "run_iteration E c ienv") auto

lemma strategy_loop_length:
  "length (strategy_loop (map (run_iteration E c) ienvs) acc)
     = length acc + succeeded_iterations E c ienvs"
proof (induction ienvs arbitrary: acc)
  case Nil
  then show ?case by (simp add: succeeded_iterations_def)
next
  case (Cons ienv ienvs)
  show ?case
  proof (cases "run_iteration E c ienv")
    case NoArticles
    then have "iteration_stops ienv" using run_iteration_stops [of E c ienv] by simp
    with NoArticles show ?thesis by (simp add: succeeded_iterations_def)
  next
    case (IterationFailed e)
    then have "\<not> iteration_stops ienv" "\<not> iteration_succeeds E c ienv"
      using run_iteration_fails [of E c ienv] by auto
    with IterationFailed Cons [of acc] show ?thesis
      by (simp add: succeeded_iterations_def)
  next
    case (Generated entry)
    then have "\<not> iteration_stops ienv"
      using run_iteration_stops [of E c ienv] by auto
    moreover from Generated have "iteration_succeeds E c ienv"
      using run_iteration_succeeds [of E c ienv] by auto
    ultimately show ?thesis
      using Generated Cons [of "acc @ [entry]"] by (simp add: succeeded_iterations_def)
  qed
qed

lemma executeStrategy_length:
  assumes "executeStrategy E c n None iters = Inr blogs"
  shows "length blogs = succeeded_iterations E c (map iters [0..<n])"
proof -
  have "map (\<lambda>i. run_iteration E c (iters i)) [0..<n]
          = map (run_iteration E c) (map iters [0..<n])"
    by simp
  with assms strategy_loop_length [of E c "map iters [0..<n]" "[]"] show ?thesis
    by (auto simp: executeStrategy_def)
qed

text \<open>
  A run that asks for \<open>N\<close> blogs, whose configuration has a \<open>strategy\<close> section and
  in which the steps around the loop succeed (the configuration loads, items are
  fetched and stored, the AI client is there, the statistics are read and the report is
  saved): the report counts exactly the iterations that succeeded, among those that
  run, and the task ends completed. The same holds for the analysis of existing
  articles, which has no fetch step.
\<close>

lemma report_counts_succeeded_iterations:
  assumes "loadConfig_reply env = Inr c" and "strategy c = Some s"
    and "fetch_reply env = Inr articles" and "articles \<noteq> []"
    and "saveArticle_reply env = None" and "aiClient_reply env = None"
    and "stats_reply env = Inr stats" and "saveReport_reply env = None"
    and "can_start taskId_arg q"
  shows "(\<exists>rep. fst (executeFullWorkflow E t0 t1 N opts cb taskId_arg env q)
                  = Some (ReportValue rep)
              \<and> rep_generatedBlogs rep =
                  int (succeeded_iterations E c (map (iterations env) [0..<N])))
       \<and> getTaskStatus (snd (executeFullWorkflow E t0 t1 N opts cb taskId_arg env q))
           (workflow_task_id taskId_arg q) = Some COMPLETED
       \<and> (\<exists>rep. fst (analyzeExistingArticles E t0 t1 N opts cb taskId_arg env q)
                  = Some (ReportValue rep)
              \<and> rep_generatedBlogs rep =
                  int (succeeded_iterations E c (map (iterations env) [0..<N])))
       \<and> getTaskStatus (snd (analyzeExistingArticles E t0 t1 N opts cb taskId_arg env q))
           (workflow_task_id taskId_arg q) = Some COMPLETED"
proof -
  obtain blogs where blogs: "executeStrategy E c N (aiClient_reply env) (iterations env) = Inr blogs"
    using assms(6) by (simp add: executeStrategy_def)
  then have len: "length blogs = succeeded_iterations E c (map (iterations env) [0..<N])"
    using assms(6) executeStrategy_length by metis
  obtain rep where rep: "generateReport blogs c t0 t1 (stats_reply env) = Inr rep"
    and cnt: "rep_generatedBlogs rep = int (length blogs)"
    using assms(2,7) by (simp add: generateReport_def)
  have "length articles \<noteq> 0" using assms(4) by simp
  then have full: "snd (fullWorkflow_executor E t0 t1 N cb env) = Inr (ReportValue rep)"
    using assms(1,3,5,8) blogs rep by (simp add: fullWorkflow_executor_def Let_def)
  have ana: "snd (analyzeExisting_executor E t0 t1 N cb env) = Inr (ReportValue rep)"
    using assms(1,8) blogs rep by (simp add: analyzeExisting_executor_def Let_def)
  from run_workflow_resolved [OF assms(9) full] run_workflow_resolved [OF assms(9) ana]
  show ?thesis
    using cnt len by (simp add: executeFullWorkflow_def analyzeExistingArticles_def)
qed

lemma example_iterations:
  assumes "analysis c = analysis example_config"
  shows "iteration_succeeds E c (example_iteration 0)"
    and "\<not> iteration_succeeds E c (example_iteration 1)"
    and "iteration_succeeds E c (example_iteration 2)"
    and "\<not> iteration_stops (example_iteration i)"
proof -
  have a: "getAnalysisConfig c = getAnalysisConfig example_config"
    using assms by (simp add: getAnalysisConfig_def)
  have "\<exists>th. read_thresholds E (getAnalysisConfig c) (getStrategyConfig c) = Inr th"
    unfolding a
    by (simp add: read_thresholds_def getAnalysisConfig_def spread_over_def
        example_config_def)
  then obtain th where th: "read_thresholds E (getAnalysisConfig c) (getStrategyConfig c) = Inr th"
    by blast
  have pl: "\<forall>t \<in> set [topic_A, topic_B, topic_C]. scorable t"
    by (simp add: scorable_def topic_A_def topic_B_def topic_C_def)
  have gb: "generateBlog E (getStrategyConfig c) (getAnalysisConfig c)
              (JObj [(''topics'', JArr [topic_A, topic_B, topic_C])]) reply = reply"
    for reply
    using selectedTopics_scorable [OF pl, of E "minNoveltyScore th" "minImpactScore th"
        "maxTopics th"]
    by (auto simp: generateBlog_def th)
  show "iteration_succeeds E c (example_iteration 0)"
    by (simp add: iteration_succeeds_def example_iteration_def gb example_articles_def)
  show "iteration_succeeds E c (example_iteration 2)"
    by (simp add: iteration_succeeds_def example_iteration_def gb example_articles_def)
  show "\<not> iteration_succeeds E c (example_iteration 1)"
    by (simp add: iteration_succeeds_def example_iteration_def example_articles_def)
  show "\<not> iteration_stops (example_iteration i)"
    by (simp add: iteration_stops_def example_iteration_def example_articles_def)
qed

lemma example_succeeded_iterations:
  assumes "analysis c = analysis example_config"
  shows "succeeded_iterations E c (map example_iteration [0..<3]) = 2"
proof -
  have upt3: "[0..<3] = [0, 1, 2::nat]"
    by (simp add: numeral_3_eq_3 numeral_2_eq_2)
  note ex = example_iterations(1-3) [OF assms, of E]
  note going = example_iterations(4) [OF assms]
  have "succeeded_iterations E c [example_iteration 0, example_iteration 1,
          example_iteration 2] = 2"
    using ex by (simp add: succeeded_iterations_def going)
  then show ?thesis unfolding upt3 by simp
qed

text \<open>
  The example of the specification, with the configuration that has a \<open>strategy\<close>
  section: three blogs asked for, the analysis of the second iteration throws, the
  report counts two and the task ends completed.
\<close>

lemma example_run_counts_two:
  "(\<exists>rep. fst (executeFullWorkflow E 0 1 3 () False None example_env
                  (new_TaskQueue :: (unit, wf_value) task_queue))
             = Some (ReportValue rep)
         \<and> rep_generatedBlogs rep = 2)
   \<and> getTaskStatus
       (snd (executeFullWorkflow E 0 1 3 () False None example_env
               (new_TaskQueue :: (unit, wf_value) task_queue))) 1 = Some COMPLETED"
proof -
  have h: "loadConfig_reply example_env = Inr example_config"
      "strategy example_config = Some [(''articlesPerBlog'', JNum (Fin 6))]"
      "fetch_reply example_env = Inr example_articles" "example_articles \<noteq> []"
      "saveArticle_reply example_env = None" "aiClient_reply example_env = None"
      "stats_reply example_env = Inr (JObj [])" "saveReport_reply example_env = None"
    by (simp_all add: example_env_def example_config_def example_articles_def)
  have c: "can_start None (new_TaskQueue :: (unit, wf_value) task_queue)"
    by (simp add: can_start_def)
  have i: "workflow_task_id None (new_TaskQueue :: (unit, wf_value) task_queue) = 1"
    by (simp add: workflow_task_id_def new_TaskQueue_def)
  have it: "iterations example_env = example_iteration" by (simp add: example_env_def)
  have two: "succeeded_iterations E example_config (map (iterations example_env) [0..<3]) = 2"
    unfolding it by (rule example_succeeded_iterations) simp
  from report_counts_succeeded_iterations [OF h c, of E 0 1 3 "()" False]
  show ?thesis unfolding two i by simp
qed

text \<open>
  C2 fails for a configuration file that has no \<open>strategy\<close> section. Such a file is
  one the loop runs with: \<open>getStrategyConfig\<close> spreads what there is of the section
  over its defaults. In the run of the specification's example with such a file, three
  blogs are asked for, the analysis of the second iteration throws and is passed over,
  and the two other iterations generate and save their blogs. Then \<open>generateReport\<close>
  reads \<open>config.strategy.articlesPerBlog\<close> and throws a TypeError: there is no
  report, the task ends failed and the workflow returns a failure result.
\<close>

theorem no_strategy_section_no_report:
  "\<forall>E. strategy example_config_no_strategy = None
     \<and> succeeded_iterations E example_config_no_strategy
         (map (iterations example_env_no_strategy) [0..<3]) = 2
     \<and> (\<exists>b0 b2. executeStrategy E example_config_no_strategy 3
                   (aiClient_reply example_env_no_strategy)
                   (iterations example_env_no_strategy) = Inr [b0, b2])
     \<and> fst (executeFullWorkflow E 0 1 3 () False None example_env_no_strategy
              (new_TaskQueue :: (unit, wf_value) task_queue))
         = Some (WorkflowResult False FullWorkflowFailed
                   (ErrorData \<lparr>err_name = ''TypeError'',
                               err_message = CannotReadProperty ''articlesPerBlog''\<rparr>))
     \<and> getTaskStatus
         (snd (executeFullWorkflow E 0 1 3 () False None example_env_no_strategy
                 (new_TaskQueue :: (unit, wf_value) task_queue))) 1 = Some FAILED"
proof
  fix E
  let ?c = "example_config_no_strategy"
  let ?env = "example_env_no_strategy"
  let ?q = "new_TaskQueue :: (unit, wf_value) task_queue"
  let ?err = "\<lparr>err_name = ''TypeError'', err_message = CannotReadProperty ''articlesPerBlog''\<rparr>"
  have h: "loadConfig_reply ?env = Inr ?c" "strategy ?c = None"
      "fetch_reply ?env = Inr example_articles" "length example_articles \<noteq> 0"
      "saveArticle_reply ?env = None" "aiClient_reply ?env = None"
      "stats_reply ?env = Inr (JObj [])" "iterations ?env = example_iteration"
    by (simp_all add: example_env_no_strategy_def example_config_no_strategy_def
        example_env_def example_config_def example_articles_def)
  have an: "analysis ?c = analysis example_config"
    by (simp add: example_config_no_strategy_def)
  have two: "succeeded_iterations E ?c (map (iterations ?env) [0..<3]) = 2"
    unfolding h(8) using an by (rule example_succeeded_iterations)
  obtain blogs where blogs: "executeStrategy E ?c 3 (aiClient_reply ?env) (iterations ?env)
      = Inr blogs"
    by (simp add: executeStrategy_def h(6))
  then have "length blogs = 2"
    using executeStrategy_length [of E ?c 3 "iterations ?env" blogs] two h(6) by simp
  then obtain b0 b2 where b: "blogs = [b0, b2]"
    by (cases blogs; cases "tl blogs") auto
  have rep: "generateReport blogs ?c 0 1 (stats_reply ?env) = Inl ?err"
    by (simp add: generateReport_def h new_TypeError_def)
  have ex: "snd (fullWorkflow_executor E 0 1 3 False ?env) = Inl ?err"
    using h(1,3,4,5) blogs rep by (simp add: fullWorkflow_executor_def Let_def)
  have c: "can_start None ?q" by (simp add: can_start_def)
  have i: "workflow_task_id None ?q = 1"
    by (simp add: workflow_task_id_def new_TaskQueue_def)
  from run_workflow_rejected [OF c ex, of "''fullWorkflow''" "()" FullWorkflowFailed 0 1]
  have r: "fst (executeFullWorkflow E 0 1 3 () False None ?env ?q)
              = Some (WorkflowResult False FullWorkflowFailed (ErrorData ?err))"
    "getTaskStatus (snd (executeFullWorkflow E 0 1 3 () False None ?env ?q)) 1 = Some FAILED"
    unfolding i by (simp_all add: executeFullWorkflow_def)
  from blogs b have e: "\<exists>b0 b2. executeStrategy E ?c 3 (aiClient_reply ?env) (iterations ?env)
      = Inr [b0, b2]"
    by blast
  from h(2) two e r
  show "strategy ?c = None
     \<and> succeeded_iterations E ?c (map (iterations ?env) [0..<3]) = 2
     \<and> (\<exists>b0 b2. executeStrategy E ?c 3 (aiClient_reply ?env) (iterations ?env) = Inr [b0, b2])
     \<and> fst (executeFullWorkflow E 0 1 3 () False None ?env ?q)
         = Some (WorkflowResult False FullWorkflowFailed (ErrorData ?err))
     \<and> getTaskStatus (snd (executeFullWorkflow E 0 1 3 () False None ?env ?q)) 1 = Some FAILED"
    by blast
qed

subsection \<open>The fetch workflow\<close>

lemma fetch_executor_outcome:
  assumes "snd (fetchWorkflow_executor t0 t1 selectedFeeds cb env) = Inr v"
  shows "v = WorkflowResult False NoArticlesFetched NoData
       \<or> (\<exists>rep. v = WorkflowResult True FetchWorkflowSucceeded (ReportData rep)
               \<and> rep_generatedBlogs rep = 0)"
  using assms
  by (auto simp: fetchWorkflow_executor_def Let_def createWorkflowResult_def
      split: sum.splits option.splits if_splits)

text \<open>
  C6, as the code has it. Every report that a run of the fetch workflow returns has a
  count of generated blogs of 0. A run that fetches at least one item, with its other
  steps succeeding, returns such a report, which records the number of items fetched.
  A run that fetches no item builds no report: it returns the result with \<open>success\<close>
  false and the message that no article was fetched, without data, and its task ends
  completed.
\<close>

theorem fetch_workflow_report:
  "(report_of (fst (executeFetchWorkflow t0 t1 selectedFeeds opts cb taskId_arg env q)) = Some rep
      \<longrightarrow> rep_generatedBlogs rep = 0)
   \<and> (can_start taskId_arg q \<and> loadConfig_reply env = Inr c \<and> fetch_reply env = Inr articles
      \<and> articles \<noteq> [] \<and> saveArticle_reply env = None \<and> stats_reply env = Inr stats
      \<and> saveReport_reply env = None
      \<longrightarrow> (\<exists>r. fst (executeFetchWorkflow t0 t1 selectedFeeds opts cb taskId_arg env q)
                   = Some (WorkflowResult True FetchWorkflowSucceeded (ReportData r))
               \<and> rep_generatedBlogs r = 0
               \<and> rep_articlesFetched r = Some (length articles))
          \<and> getTaskStatus
               (snd (executeFetchWorkflow t0 t1 selectedFeeds opts cb taskId_arg env q))
               (workflow_task_id taskId_arg q) = Some COMPLETED)
   \<and> (can_start taskId_arg q \<and> loadConfig_reply env = Inr c \<and> fetch_reply env = Inr []
      \<longrightarrow> fst (executeFetchWorkflow t0 t1 selectedFeeds opts cb taskId_arg env q)
             = Some (WorkflowResult False NoArticlesFetched NoData)
          \<and> report_of (fst (executeFetchWorkflow t0 t1 selectedFeeds opts cb taskId_arg env q))
             = None
          \<and> getTaskStatus
               (snd (executeFetchWorkflow t0 t1 selectedFeeds opts cb taskId_arg env q))
               (workflow_task_id taskId_arg q) = Some COMPLETED)"
proof (intro conjI impI)
  let ?run = "fetchWorkflow_executor t0 t1 selectedFeeds cb env"
  let ?res = "executeFetchWorkflow t0 t1 selectedFeeds opts cb taskId_arg env q"
  show "rep_generatedBlogs rep = 0" if r: "report_of (fst ?res) = Some rep"
  proof -
    from r obtain v where v: "fst ?res = Some v" by (cases "fst ?res") auto
    from run_workflow_value [of "''fetchWorkflow''" opts FetchWorkflowFailed t0 t1 taskId_arg ?run q v]
    have "(\<exists>d. v = WorkflowResult False FetchWorkflowFailed d \<and> (\<forall>rep. d \<noteq> ReportData rep))
          \<or> snd ?run = Inr v"
      using v by (simp add: executeFetchWorkflow_def)
    then show ?thesis
    proof
      assume "\<exists>d. v = WorkflowResult False FetchWorkflowFailed d \<and> (\<forall>rep. d \<noteq> ReportData rep)"
      then obtain d where "v = WorkflowResult False FetchWorkflowFailed d" "\<forall>rep. d \<noteq> ReportData rep"
        by blast
      with r v show ?thesis by (cases d) auto
    next
      assume "snd ?run = Inr v"
      from fetch_executor_outcome [OF this] r v show ?thesis by auto
    qed
  qed
next
  let ?run = "fetchWorkflow_executor t0 t1 selectedFeeds cb env"
  assume a: "can_start taskId_arg q \<and> loadConfig_reply env = Inr c \<and> fetch_reply env = Inr articles
      \<and> articles \<noteq> [] \<and> saveArticle_reply env = None \<and> stats_reply env = Inr stats
      \<and> saveReport_reply env = None"
  then have "length articles \<noteq> 0" by simp
  with a obtain r where run: "snd ?run = Inr (WorkflowResult True FetchWorkflowSucceeded (ReportData r))"
    and r: "rep_generatedBlogs r = 0" "rep_articlesFetched r = Some (length articles)"
    by (simp add: fetchWorkflow_executor_def Let_def createWorkflowResult_def)
  from a have cs: "can_start taskId_arg q" by simp
  from run_workflow_resolved [OF cs run] r
  show "\<exists>r. fst (executeFetchWorkflow t0 t1 selectedFeeds opts cb taskId_arg env q)
                   = Some (WorkflowResult True FetchWorkflowSucceeded (ReportData r))
               \<and> rep_generatedBlogs r = 0
               \<and> rep_articlesFetched r = Some (length articles)"
    and "getTaskStatus
               (snd (executeFetchWorkflow t0 t1 selectedFeeds opts cb taskId_arg env q))
               (workflow_task_id taskId_arg q) = Some COMPLETED"
    by (simp_all add: executeFetchWorkflow_def)
next
  let ?run = "fetchWorkflow_executor t0 t1 selectedFeeds cb env"
  assume a: "can_start taskId_arg q \<and> loadConfig_reply env = Inr c \<and> fetch_reply env = Inr []"
  then have run: "snd ?run = Inr (WorkflowResult False NoArticlesFetched NoData)"
    by (simp add: fetchWorkflow_executor_def Let_def createWorkflowResult_def)
  from a have cs: "can_start taskId_arg q" by simp
  from run_workflow_resolved [OF cs run]
  show "fst (executeFetchWorkflow t0 t1 selectedFeeds opts cb taskId_arg env q)
             = Some (WorkflowResult False NoArticlesFetched NoData)"
    and "report_of (fst (executeFetchWorkflow t0 t1 selectedFeeds opts cb taskId_arg env q))
             = None"
    and "getTaskStatus
               (snd (executeFetchWorkflow t0 t1 selectedFeeds opts cb taskId_arg env q))
               (workflow_task_id taskId_arg q) = Some COMPLETED"
    by (simp_all add: executeFetchWorkflow_def)
qed

theorem fetch_workflow_report_witness:
  "can_start None (new_TaskQueue :: (unit, wf_value) task_queue)
   \<and> loadConfig_reply example_env = Inr example_config
   \<and> fetch_reply example_env = Inr example_articles \<and> example_articles \<noteq> []
   \<and> saveArticle_reply example_env = None \<and> stats_reply example_env = Inr (JObj [])
   \<and> saveReport_reply example_env = None
   \<and> (\<exists>r. fst (executeFetchWorkflow 0 1 None () False None example_env
                  (new_TaskQueue :: (unit, wf_value) task_queue))
              = Some (WorkflowResult True FetchWorkflowSucceeded (ReportData r))
          \<and> rep_generatedBlogs r = 0 \<and> rep_articlesFetched r = Some 3)
   \<and> getTaskStatus
       (snd (executeFetchWorkflow 0 1 None () False None example_env
               (new_TaskQueue :: (unit, wf_value) task_queue))) 1 = Some COMPLETED"
proof -
  have h: "loadConfig_reply example_env = Inr example_config"
      "fetch_reply example_env = Inr example_articles" "example_articles \<noteq> []"
      "saveArticle_reply example_env = None"
      "stats_reply example_env = Inr (JObj [])" "saveReport_reply example_env = None"
    by (simp_all add: example_env_def example_articles_def)
  have c: "can_start None (new_TaskQueue :: (unit, wf_value) task_queue)"
    by (simp add: can_start_def)
  have i: "workflow_task_id None (new_TaskQueue :: (unit, wf_value) task_queue) = 1"
    by (simp add: workflow_task_id_def new_TaskQueue_def)
  have l: "length example_articles = 3" by (simp add: example_articles_def)
  from fetch_workflow_report [of 0 1 None "()" False None example_env
      "new_TaskQueue :: (unit, wf_value) task_queue" _ example_config example_articles "JObj []"]
    h c
  have "(\<exists>r. fst (executeFetchWorkflow 0 1 None () False None example_env
                  (new_TaskQueue :: (unit, wf_value) task_queue))
              = Some (WorkflowResult True FetchWorkflowSucceeded (ReportData r))
          \<and> rep_generatedBlogs r = 0 \<and> rep_articlesFetched r = Some 3)
   \<and> getTaskStatus
       (snd (executeFetchWorkflow 0 1 None () False None example_env
               (new_TaskQueue :: (unit, wf_value) task_queue))) 1 = Some COMPLETED"
    unfolding i l by blast
  with h c show ?thesis by blast
qed

text \<open>
  C6, as the claim has it, fails when no item is fetched: the run returns no report, so
  there is no report whose count is 0.
\<close>

theorem fetch_workflow_nothing_fetched_no_report:
  "fst (executeFetchWorkflow 0 1 None () False None example_env_nothing_fetched
          (new_TaskQueue :: (unit, wf_value) task_queue))
     = Some (WorkflowResult False NoArticlesFetched NoData)
   \<and> report_of (fst (executeFetchWorkflow 0 1 None () False None example_env_nothing_fetched
          (new_TaskQueue :: (unit, wf_value) task_queue))) = None"
proof -
  have run: "snd (fetchWorkflow_executor 0 1 None False example_env_nothing_fetched)
          = Inr (WorkflowResult False NoArticlesFetched NoData)"
    by (simp add: fetchWorkflow_executor_def example_env_nothing_fetched_def example_env_def
        Let_def createWorkflowResult_def)
  have c: "can_start None (new_TaskQueue :: (unit, wf_value) task_queue)"
    by (simp add: can_start_def)
  from run_workflow_resolved(1) [OF c run] show ?thesis
    by (simp add: executeFetchWorkflow_def)
qed

end
